theory Spec2Isabelle
  imports Main "HOL-Library.Word" "HOL-Library.Monad_Syntax" "HOL-Library.Sublist"
begin

section \<open>Registers, operands and instructions\<close>

text \<open>
  A \<open>Register\<close> is an unsigned 32-bit identifier. The default-constructed register is the
  invalid one (value 0); \<open>isValid\<close> is "not 0".
\<close>

type_synonym register = "32 word"

definition NoRegister :: register where
  "NoRegister = 0"

definition isValid :: "register \<Rightarrow> bool" where
  "isValid R = (R \<noteq> 0)"

text \<open>
  Modelled from the spec: \<open>Register::index2StackSlot\<close> and \<open>Register::index2VirtReg\<close> are
  not under src. A non-negative frame index is mapped to a dedicated stack-slot
  pseudo-register identifier (the identifiers from \<open>2^30\<close> on), a virtual register is an
  index with the top bit set.
\<close>

definition index2StackSlot :: "32 word \<Rightarrow> register" where
  "index2StackSlot FI = FI + 2 ^ 30"

definition index2VirtReg :: "nat \<Rightarrow> register" where
  "index2VirtReg n = word_of_nat n + 2 ^ 31"

text \<open>
  Modelled from the spec: the enumerators \<open>Z80::A\<close>, \<open>Z80::F\<close>, \<open>Z80::SPS\<close> and \<open>Z80::SPL\<close>
  come from the generated register table, which is not under src. They are the
  accumulator, the flags register and the 16-bit and 24-bit stack-pointer
  pseudo-registers: four distinct, valid physical identifiers. Only that is used below.
\<close>

definition Z80_A :: register where "Z80_A = 1"
definition Z80_F :: register where "Z80_F = 2"
definition Z80_SPS :: register where "Z80_SPS = 3"
definition Z80_SPL :: register where "Z80_SPL = 4"

text \<open>
  Operands: a register (with its "is a definition" and "is implicit" flags), an
  immediate (64-bit), or a frame index (a signed 32-bit \<open>int\<close>, kept as a word and read
  with \<open>sint\<close>).
\<close>

datatype MachineOperand =
    MO_Register register bool bool
  | MO_Immediate "64 word"
  | MO_FrameIndex "32 word"

text \<open>
  Opcodes are the enumerators' names. The opcodes the pass names are exactly the
  strings that occur in \<open>switch_case\<close> below and in the rewrites; every other string is
  an opcode of the \<open>default\<close> case.
\<close>

type_synonym opcode = string

record MachineInstr =
  Opcode :: opcode
  Operands :: "MachineOperand list"
  DebugLoc :: nat

text \<open>
  Operand accessors. \<open>getOperand\<close> out of range, \<open>getReg\<close> on a non-register,
  \<open>getImm\<close> on a non-immediate and \<open>getIndex\<close> on an operand that holds no index are
  assertion failures in the source: \<open>None\<close> here.
\<close>

definition getOperand :: "MachineInstr \<Rightarrow> nat \<Rightarrow> MachineOperand option" where
  "getOperand MI OpNo = (if OpNo < length (Operands MI) then Some (Operands MI ! OpNo) else None)"

fun getReg :: "MachineOperand \<Rightarrow> register option" where
  "getReg (MO_Register R d i) = Some R"
| "getReg _ = None"

fun getImm :: "MachineOperand \<Rightarrow> 64 word option" where
  "getImm (MO_Immediate v) = Some v"
| "getImm _ = None"

fun setRegMO :: "register \<Rightarrow> MachineOperand \<Rightarrow> MachineOperand option" where
  "setRegMO R (MO_Register R0 d i) = Some (MO_Register R d i)"
| "setRegMO R _ = None"

fun isExplicitDef :: "MachineOperand \<Rightarrow> bool" where
  "isExplicitDef (MO_Register R d i) = (d \<and> \<not> i)"
| "isExplicitDef _ = False"

fun isImplicitReg :: "MachineOperand \<Rightarrow> bool" where
  "isImplicitReg (MO_Register R d i) = i"
| "isImplicitReg _ = False"

fun isDefOf :: "register \<Rightarrow> MachineOperand \<Rightarrow> bool" where
  "isDefOf R (MO_Register R0 d i) = (d \<and> R0 = R)"
| "isDefOf R _ = False"

fun isUseOf :: "register \<Rightarrow> MachineOperand \<Rightarrow> bool" where
  "isUseOf R (MO_Register R0 d i) = (\<not> d \<and> R0 = R)"
| "isUseOf R _ = False"

text \<open>
  Modelled from the spec: \<open>MachineInstr::defs\<close> is not under src. "Each instruction
  exposes its defined registers": the registers of the explicit register definitions,
  which lead the operand list. Implicit definitions (the accumulator and the flags of
  the arithmetic instructions) are operands too, but not among \<open>defs\<close>.
\<close>

definition defs :: "MachineInstr \<Rightarrow> register list" where
  "defs MI = map (\<lambda>MO. case MO of MO_Register R d i \<Rightarrow> R | _ \<Rightarrow> NoRegister)
               (takeWhile isExplicitDef (Operands MI))"

text \<open>
  Modelled from the spec: \<open>MachineInstr::modifiesRegister\<close> is not under src. "Whether
  it writes the flags register": some register operand, explicit or implicit, is a
  definition of the register or of one the oracle says overlaps it.
\<close>

definition modifiesRegister ::
  "(register \<Rightarrow> register \<Rightarrow> bool) \<Rightarrow> MachineInstr \<Rightarrow> register \<Rightarrow> bool" where
  "modifiesRegister TRI MI R =
     list_ex (\<lambda>MO. case MO of MO_Register R0 d i \<Rightarrow> d \<and> (R0 = R \<or> TRI R0 R) | _ \<Rightarrow> False)
       (Operands MI)"

text \<open>
  Modelled from the spec: \<open>MachineInstr::addOperand\<close> (behind \<open>MachineInstrBuilder::add\<close>
  and \<open>addImm\<close>) is not under src. The spec says that the rewritten instruction carries
  the added operands and leaves their position open; the position is the one of the
  machine-instruction library: an implicit register operand goes to the end of the
  list, every other operand goes before the trailing implicit register operands.
\<close>

definition addOperand :: "MachineOperand \<Rightarrow> MachineOperand list \<Rightarrow> MachineOperand list" where
  "addOperand Op Ops =
     (if isImplicitReg Op then Ops @ [Op]
      else (let k = length (takeWhile isImplicitReg (rev Ops))
            in take (length Ops - k) Ops @ Op # drop (length Ops - k) Ops))"

section \<open>The location tracker\<close>

record ValLoc =
  Reg :: register
  Base :: register
  Off :: "8 word"

definition ValLoc_default :: ValLoc where
  "ValLoc_default = \<lparr>Reg = NoRegister, Base = NoRegister, Off = 0\<rparr>"

definition getBaseReg :: "MachineInstr \<Rightarrow> nat \<Rightarrow> register option" where
  "getBaseReg MI OpNo =
     (case getOperand MI OpNo of
        None \<Rightarrow> None
      | Some (MO_Register R d i) \<Rightarrow> Some R
      | Some (MO_FrameIndex FI) \<Rightarrow>
          Some (if 0 \<le> sint FI then index2StackSlot FI else NoRegister)
      | Some (MO_Immediate v) \<Rightarrow> None)"

definition setReg :: "ValLoc \<Rightarrow> register \<Rightarrow> ValLoc" where
  "setReg L R = L\<lparr>Reg := R\<rparr>"

definition setReg_MI :: "ValLoc \<Rightarrow> MachineInstr \<Rightarrow> nat \<Rightarrow> ValLoc option" where
  "setReg_MI L MI OpNo = do { MO \<leftarrow> getOperand MI OpNo; R \<leftarrow> getReg MO; Some (setReg L R) }"

definition setMem :: "ValLoc \<Rightarrow> register \<Rightarrow> 8 word \<Rightarrow> ValLoc" where
  "setMem L B O' = L\<lparr>Base := B, Off := O'\<rparr>"

definition setPtr :: "ValLoc \<Rightarrow> MachineInstr \<Rightarrow> nat \<Rightarrow> ValLoc option" where
  "setPtr L MI OpNo = do { MO \<leftarrow> getOperand MI OpNo; R \<leftarrow> getReg MO; Some (setMem L R 0) }"

text \<open>The 64-bit immediate is narrowed to the \<open>int8_t\<close> offset.\<close>

definition setOff :: "ValLoc \<Rightarrow> MachineInstr \<Rightarrow> nat \<Rightarrow> ValLoc option" where
  "setOff L MI OpNo =
     do { B \<leftarrow> getBaseReg MI OpNo;
          MO \<leftarrow> getOperand MI (OpNo + 1);
          v \<leftarrow> getImm MO;
          Some (setMem L B (ucast v)) }"

definition matchesReg :: "ValLoc \<Rightarrow> register \<Rightarrow> bool" where
  "matchesReg L R = (isValid R \<and> Reg L = R)"

definition matchesReg_MI :: "ValLoc \<Rightarrow> MachineInstr \<Rightarrow> nat \<Rightarrow> bool option" where
  "matchesReg_MI L MI OpNo = do { MO \<leftarrow> getOperand MI OpNo; R \<leftarrow> getReg MO; Some (matchesReg L R) }"

definition matchesMem :: "ValLoc \<Rightarrow> register \<Rightarrow> 8 word \<Rightarrow> bool" where
  "matchesMem L B O' = (isValid B \<and> Base L = B \<and> Off L = O')"

definition matchesPtr :: "ValLoc \<Rightarrow> MachineInstr \<Rightarrow> nat \<Rightarrow> bool option" where
  "matchesPtr L MI OpNo = do { MO \<leftarrow> getOperand MI OpNo; R \<leftarrow> getReg MO; Some (matchesMem L R 0) }"

definition matchesOff :: "ValLoc \<Rightarrow> MachineInstr \<Rightarrow> nat \<Rightarrow> bool option" where
  "matchesOff L MI OpNo =
     do { B \<leftarrow> getBaseReg MI OpNo;
          MO \<leftarrow> getOperand MI (OpNo + 1);
          v \<leftarrow> getImm MO;
          Some (matchesMem L B (ucast v)) }"

text \<open>
  \<open>clobberDefs\<close>: the first definition of the instruction that overlaps the tracked
  register or the tracked base clears the tracker. The oracle \<open>TRI\<close> is
  \<open>TargetRegisterInfo::regsOverlap\<close>, a parameter.
\<close>

definition clobberDefs :: "(register \<Rightarrow> register \<Rightarrow> bool) \<Rightarrow> MachineInstr \<Rightarrow> ValLoc \<Rightarrow> ValLoc" where
  "clobberDefs TRI MI L =
     (if list_ex (\<lambda>D. list_ex (\<lambda>LocReg. isValid LocReg \<and> TRI D LocReg) [Reg L, Base L]) (defs MI)
      then ValLoc_default else L)"

section \<open>The function being rewritten\<close>

text \<open>
  The subtarget: the capability query \<open>hasEZ80Ops\<close> and the register overlap oracle.
  Both live outside src and are parameters of the pass.
\<close>

record Z80Subtarget =
  hasEZ80Ops :: bool
  regsOverlap :: "register \<Rightarrow> register \<Rightarrow> bool"

datatype RegClass = A16RegClass | A24RegClass | OtherRegClass nat

text \<open>
  The state of a run. The basic blocks of the function in layout order are
  \<open>blocks_before\<close>, then the block being walked, then \<open>blocks_after\<close>. The block being walked is
  \<open>walked\<close> (the instructions the iterator has passed, as they stand now), the current
  instruction \<open>MI\<close> (held by the caller), and \<open>ahead\<close> (from the iterator \<open>I\<close> to \<open>E\<close>).
  \<open>VRegs\<close> is the table of virtual registers of \<open>MachineRegisterInfo\<close>: the class of
  each virtual register created so far.

  \<open>StaleAccess\<close> is not a variable of the source. It records that the run has read an
  instruction after \<open>eraseFromParent\<close> has deleted it. Such a read yields here what the
  instruction held when it was erased.
\<close>

record pass_state =
  blocks_before :: "MachineInstr list list"
  walked :: "MachineInstr list"
  ahead :: "MachineInstr list"
  blocks_after :: "MachineInstr list list"
  VRegs :: "RegClass list"
  Changed :: bool
  SZFlagLoc :: ValLoc
  StaleAccess :: bool

text \<open>
  The instructions of the whole function in layout order, with the current instruction
  in its place (\<open>function_instrs\<close>), and the same without the current instruction
  (\<open>function_body\<close>).
\<close>

definition function_instrs :: "pass_state \<Rightarrow> MachineInstr \<Rightarrow> MachineInstr list" where
  "function_instrs st MI = concat (blocks_before st) @ walked st @ MI # ahead st @ concat (blocks_after st)"

definition function_body :: "pass_state \<Rightarrow> MachineInstr list" where
  "function_body st = concat (blocks_before st) @ walked st @ ahead st @ concat (blocks_after st)"

text \<open>
  Modelled from the spec: \<open>MachineRegisterInfo::hasOneUse\<close>, \<open>getVRegDef\<close> and
  \<open>createVirtualRegister\<close> are not under src. "Exactly one use in the whole function":
  one operand in the function reads the register. The defining instruction is the
  instruction of the function with a definition of the register (the first in layout
  order; in the single-assignment form the pass runs on there is at most one).
  A fresh virtual register is the next index of the table.
\<close>

definition definesReg :: "register \<Rightarrow> MachineInstr \<Rightarrow> bool" where
  "definesReg R MI = list_ex (isDefOf R) (Operands MI)"

definition hasOneUse :: "MachineInstr list \<Rightarrow> register \<Rightarrow> bool" where
  "hasOneUse instrs R = (length (filter (isUseOf R) (concat (map Operands instrs))) = 1)"

definition getVRegDef :: "MachineInstr list \<Rightarrow> register \<Rightarrow> MachineInstr option" where
  "getVRegDef instrs R = find (definesReg R) instrs"

definition createVirtualRegister :: "RegClass \<Rightarrow> pass_state \<Rightarrow> register \<times> pass_state" where
  "createVirtualRegister RC st = (index2VirtReg (length (VRegs st)), st\<lparr>VRegs := VRegs st @ [RC]\<rparr>)"

text \<open>
  \<open>SrcMI->eraseFromParent()\<close>: the defining instruction found by \<open>getVRegDef\<close> leaves the
  block it is in, wherever that is. When it is the instruction the iterator \<open>I\<close> already
  points to, the next \<open>*I\<close> reads an erased instruction.
\<close>

fun erase_first :: "('a \<Rightarrow> bool) \<Rightarrow> 'a list \<Rightarrow> 'a list" where
  "erase_first P [] = []"
| "erase_first P (x # xs) = (if P x then xs else x # erase_first P xs)"

fun erase_first_block :: "('a \<Rightarrow> bool) \<Rightarrow> 'a list list \<Rightarrow> 'a list list" where
  "erase_first_block P [] = []"
| "erase_first_block P (b # bs) =
     (if list_ex P b then erase_first P b # bs else b # erase_first_block P bs)"

definition eraseSrcMI :: "register \<Rightarrow> pass_state \<Rightarrow> pass_state" where
  "eraseSrcMI R st =
     (if list_ex (list_ex (definesReg R)) (blocks_before st)
        then st\<lparr>blocks_before := erase_first_block (definesReg R) (blocks_before st)\<rparr>
      else if list_ex (definesReg R) (walked st)
        then st\<lparr>walked := erase_first (definesReg R) (walked st)\<rparr>
      else if list_ex (definesReg R) (ahead st)
        then st\<lparr>ahead := erase_first (definesReg R) (ahead st),
                StaleAccess := (StaleAccess st \<or> definesReg R (hd (ahead st)))\<rparr>
      else st\<lparr>blocks_after := erase_first_block (definesReg R) (blocks_after st)\<rparr>)"

section \<open>The rewrite rules\<close>

text \<open>
  The labels of the \<open>switch\<close>, grouped by the body they share; each group is named by
  its first label.
\<close>

datatype switch_label =
    Case_COPY | Case_PUSH16r | Case_LD8rp | Case_LD8ro | Case_LD8pr | Case_LD8or
  | Case_OR8ar | Case_ADD8ar | Case_RLC8r | Case_ADD8ap | Case_ADD8ao | Case_default

definition switch_case :: "opcode \<Rightarrow> switch_label" where
  "switch_case Opc =
     (if Opc = ''COPY'' then Case_COPY
      else if Opc \<in> set [''PUSH16r'', ''PUSH24r''] then Case_PUSH16r
      else if Opc \<in> set [''LD8rp'', ''LD8gp''] then Case_LD8rp
      else if Opc \<in> set [''LD8ro'', ''LD8go''] then Case_LD8ro
      else if Opc \<in> set [''LD8pr'', ''LD8pg''] then Case_LD8pr
      else if Opc \<in> set [''LD8or'', ''LD8og''] then Case_LD8or
      else if Opc = ''OR8ar'' then Case_OR8ar
      else if Opc \<in> set [''ADD8ar'', ''ADD8ai'', ''ADC8ar'', ''ADC8ai'', ''SUB8ar'', ''SUB8ai'',
                          ''SBC8ar'', ''SBC8ai'', ''AND8ar'', ''AND8ai'', ''XOR8ar'', ''XOR8ai'',
                          ''OR8ai''] then Case_ADD8ar
      else if Opc \<in> set [''RLC8r'', ''RRC8r'', ''RL8r'', ''RR8r'', ''SLA8r'', ''SRA8r'', ''SRL8r'',
                          ''INC8r'', ''DEC8r''] then Case_RLC8r
      else if Opc \<in> set [''ADD8ap'', ''ADC8ap'', ''SUB8ap'', ''SBC8ap'', ''AND8ap'', ''XOR8ap'',
                          ''OR8ap'', ''RLC8p'', ''RRC8p'', ''RL8p'', ''RR8p'', ''SLA8p'', ''SRA8p'',
                          ''SRL8p'', ''INC8p'', ''DEC8p''] then Case_ADD8ap
      else if Opc \<in> set [''ADD8ao'', ''ADC8ao'', ''SUB8ao'', ''SBC8ao'', ''AND8ao'', ''XOR8ao'',
                          ''OR8ao'', ''RLC8o'', ''RRC8o'', ''RL8o'', ''RR8o'', ''SLA8o'', ''SRA8o'',
                          ''SRL8o'', ''INC8o'', ''DEC8o''] then Case_ADD8ao
      else Case_default)"

text \<open>
  Every rule takes the current instruction and the state and returns the state and the
  current instruction as the rule leaves it: \<open>Some\<close> of the (possibly rewritten)
  instruction, or \<open>None\<close> once \<open>MI.eraseFromParent()\<close> has run.
\<close>

type_synonym rule_result = "(pass_state \<times> MachineInstr option) option"

text \<open>\<open>case TargetOpcode::COPY\<close>\<close>

definition rule_COPY :: "MachineInstr \<Rightarrow> pass_state \<Rightarrow> rule_result" where
  "rule_COPY MI st =
     do { m \<leftarrow> matchesReg_MI (SZFlagLoc st) MI 1;
          L \<leftarrow> (if m then setReg_MI (SZFlagLoc st) MI 0 else Some (SZFlagLoc st));
          MO0 \<leftarrow> getOperand MI 0;
          DstReg \<leftarrow> getReg MO0;
          let st1 = st\<lparr>SZFlagLoc := L\<rparr>;
          if DstReg \<noteq> Z80_SPS \<and> DstReg \<noteq> Z80_SPL then Some (st1, Some MI)
          else do {
            let (TmpReg, st2) =
                  createVirtualRegister (if DstReg = Z80_SPL then A24RegClass else A16RegClass) st1;
            MO1 \<leftarrow> getOperand MI 1;
            let NewMI = \<lparr>Opcode = ''COPY'',
                         Operands = addOperand MO1 [MO_Register TmpReg True False],
                         DebugLoc = DebugLoc MI\<rparr>;
            let st3 = st2\<lparr>walked := walked st2 @ [NewMI]\<rparr>;
            MO \<leftarrow> getOperand (MI\<lparr>Operands := tl (Operands MI)\<rparr>) 0;
            MO' \<leftarrow> setRegMO TmpReg MO;
            let MI' = MI\<lparr>Opcode := (if DstReg = Z80_SPL then ''LD24sa'' else ''LD16sa''),
                         Operands := MO' # tl (tl (Operands MI))\<rparr>;
            Some (st3\<lparr>Changed := True\<rparr>, Some MI')
          } }"

text \<open>\<open>case Z80::PUSH16r: case Z80::PUSH24r\<close>\<close>

definition rule_PUSH :: "Z80Subtarget \<Rightarrow> MachineInstr \<Rightarrow> pass_state \<Rightarrow> rule_result" where
  "rule_PUSH STI MI st =
     (if \<not> hasEZ80Ops STI then Some (st, Some MI)
      else do {
        let IsPush24 = (Opcode MI = ''PUSH24r'');
        MO0 \<leftarrow> getOperand MI 0;
        SrcReg \<leftarrow> getReg MO0;
        if \<not> hasOneUse (function_instrs st MI) SrcReg then Some (st, Some MI)
        else (case getVRegDef (function_instrs st MI) SrcReg of
            None \<Rightarrow> Some (st, Some MI)
          | Some SrcMI \<Rightarrow>
              if Opcode SrcMI \<noteq> (if IsPush24 then ''LEA24ro'' else ''LEA16ro'')
              then Some (st, Some MI)
              else do {
                BaseMO \<leftarrow> getOperand SrcMI 1;
                MO2 \<leftarrow> getOperand SrcMI 2;
                NewOff \<leftarrow> getImm MO2;
                MI' \<leftarrow> (case BaseMO of
                    MO_Register BaseReg d i \<Rightarrow>
                      if NewOff \<noteq> 0
                      then Some (MI\<lparr>Opcode := (if IsPush24 then ''PEA24o'' else ''PEA16o''),
                                     Operands := addOperand (MO_Immediate NewOff)
                                                   (addOperand BaseMO (tl (Operands MI)))\<rparr>)
                      else do { MO' \<leftarrow> setRegMO BaseReg MO0;
                                Some (MI\<lparr>Operands := MO' # tl (Operands MI)\<rparr>) }
                  | _ \<Rightarrow>
                      Some (MI\<lparr>Opcode := (if IsPush24 then ''PEA24o'' else ''PEA16o''),
                                Operands := addOperand (MO_Immediate NewOff)
                                              (addOperand BaseMO (tl (Operands MI)))\<rparr>));
                Some ((eraseSrcMI SrcReg st)\<lparr>Changed := True\<rparr>, Some MI')
              })
      })"

text \<open>\<open>case Z80::LD8rp: case Z80::LD8gp\<close> and \<open>case Z80::LD8ro: case Z80::LD8go\<close>\<close>

definition rule_LD8rp :: "MachineInstr \<Rightarrow> pass_state \<Rightarrow> rule_result" where
  "rule_LD8rp MI st =
     do { m \<leftarrow> matchesPtr (SZFlagLoc st) MI 1;
          L \<leftarrow> (if m then setReg_MI (SZFlagLoc st) MI 0 else Some (SZFlagLoc st));
          Some (st\<lparr>SZFlagLoc := L\<rparr>, Some MI) }"

definition rule_LD8ro :: "MachineInstr \<Rightarrow> pass_state \<Rightarrow> rule_result" where
  "rule_LD8ro MI st =
     do { m \<leftarrow> matchesOff (SZFlagLoc st) MI 1;
          L \<leftarrow> (if m then setReg_MI (SZFlagLoc st) MI 0 else Some (SZFlagLoc st));
          Some (st\<lparr>SZFlagLoc := L\<rparr>, Some MI) }"

text \<open>\<open>case Z80::LD8pr: case Z80::LD8pg\<close> and \<open>case Z80::LD8or: case Z80::LD8og\<close>\<close>

definition rule_LD8pr :: "MachineInstr \<Rightarrow> pass_state \<Rightarrow> rule_result" where
  "rule_LD8pr MI st =
     do { m \<leftarrow> matchesReg_MI (SZFlagLoc st) MI 1;
          L \<leftarrow> (if m then setPtr (SZFlagLoc st) MI 0 else Some (SZFlagLoc st));
          Some (st\<lparr>SZFlagLoc := L\<rparr>, Some MI) }"

definition rule_LD8or :: "MachineInstr \<Rightarrow> pass_state \<Rightarrow> rule_result" where
  "rule_LD8or MI st =
     do { m \<leftarrow> matchesReg_MI (SZFlagLoc st) MI 2;
          L \<leftarrow> (if m then setOff (SZFlagLoc st) MI 0 else Some (SZFlagLoc st));
          Some (st\<lparr>SZFlagLoc := L\<rparr>, Some MI) }"

text \<open>The accumulator arithmetic (\<open>case Z80::ADD8ar\<close> to \<open>case Z80::OR8ai\<close>)\<close>

definition rule_ADD8ar :: "MachineInstr \<Rightarrow> pass_state \<Rightarrow> rule_result" where
  "rule_ADD8ar MI st = Some (st\<lparr>SZFlagLoc := setReg (SZFlagLoc st) Z80_A\<rparr>, Some MI)"

text \<open>
  \<open>case Z80::OR8ar\<close>: the redundant self-OR is erased and the \<open>switch\<close> is left; any
  other \<open>OR8ar\<close> falls through to the accumulator arithmetic.
\<close>

definition rule_OR8ar :: "MachineInstr \<Rightarrow> pass_state \<Rightarrow> rule_result" where
  "rule_OR8ar MI st =
     do { MO0 \<leftarrow> getOperand MI 0;
          R \<leftarrow> getReg MO0;
          if R = Z80_A \<and> matchesReg (SZFlagLoc st) R then Some (st, None)
          else rule_ADD8ar MI st }"

text \<open>The rotates, shifts, increments and decrements of a register\<close>

definition rule_RLC8r :: "MachineInstr \<Rightarrow> pass_state \<Rightarrow> rule_result" where
  "rule_RLC8r MI st =
     do { L \<leftarrow> setReg_MI (SZFlagLoc st) MI 0; Some (st\<lparr>SZFlagLoc := L\<rparr>, Some MI) }"

text \<open>The same operations through register-indirect and offset-indirect memory\<close>

definition rule_ADD8ap :: "MachineInstr \<Rightarrow> pass_state \<Rightarrow> rule_result" where
  "rule_ADD8ap MI st =
     do { L \<leftarrow> setPtr (SZFlagLoc st) MI 0; Some (st\<lparr>SZFlagLoc := L\<rparr>, Some MI) }"

definition rule_ADD8ao :: "MachineInstr \<Rightarrow> pass_state \<Rightarrow> rule_result" where
  "rule_ADD8ao MI st =
     do { L \<leftarrow> setOff (SZFlagLoc st) MI 0; Some (st\<lparr>SZFlagLoc := L\<rparr>, Some MI) }"

text \<open>\<open>default\<close>\<close>

definition rule_default :: "Z80Subtarget \<Rightarrow> MachineInstr \<Rightarrow> pass_state \<Rightarrow> rule_result" where
  "rule_default STI MI st =
     Some (if modifiesRegister (regsOverlap STI) MI Z80_F then st\<lparr>SZFlagLoc := ValLoc_default\<rparr> else st,
           Some MI)"

definition dispatch :: "Z80Subtarget \<Rightarrow> MachineInstr \<Rightarrow> pass_state \<Rightarrow> rule_result" where
  "dispatch STI MI st =
     (case switch_case (Opcode MI) of
        Case_COPY \<Rightarrow> rule_COPY MI st
      | Case_PUSH16r \<Rightarrow> rule_PUSH STI MI st
      | Case_LD8rp \<Rightarrow> rule_LD8rp MI st
      | Case_LD8ro \<Rightarrow> rule_LD8ro MI st
      | Case_LD8pr \<Rightarrow> rule_LD8pr MI st
      | Case_LD8or \<Rightarrow> rule_LD8or MI st
      | Case_OR8ar \<Rightarrow> rule_OR8ar MI st
      | Case_ADD8ar \<Rightarrow> rule_ADD8ar MI st
      | Case_RLC8r \<Rightarrow> rule_RLC8r MI st
      | Case_ADD8ap \<Rightarrow> rule_ADD8ap MI st
      | Case_ADD8ao \<Rightarrow> rule_ADD8ao MI st
      | Case_default \<Rightarrow> rule_default STI MI st)"

section \<open>The driver\<close>

text \<open>
  One turn of the \<open>while\<close> loop, after \<open>MI = *I; ++I\<close>: the \<open>switch\<close>, then
  \<open>clobberDefs(MI, TRI)\<close>. The call reads \<open>MI\<close> whatever the \<open>switch\<close> did: the rewritten
  instruction when \<open>MI\<close> was rewritten in place, and the erased instruction when
  \<open>MI.eraseFromParent()\<close> has run.
\<close>

definition step :: "Z80Subtarget \<Rightarrow> MachineInstr \<Rightarrow> pass_state \<Rightarrow> pass_state option" where
  "step STI MI st =
     (case dispatch STI MI st of
        None \<Rightarrow> None
      | Some (st1, Some MI') \<Rightarrow>
          Some (st1\<lparr>SZFlagLoc := clobberDefs (regsOverlap STI) MI' (SZFlagLoc st1),
                    walked := walked st1 @ [MI']\<rparr>)
      | Some (st1, None) \<Rightarrow>
          Some (st1\<lparr>SZFlagLoc := clobberDefs (regsOverlap STI) MI (SZFlagLoc st1),
                    StaleAccess := True\<rparr>))"

lemma length_erase_first: "length (erase_first P xs) \<le> length xs"
  by (induction xs) auto

lemma length_erase_first_block: "length (erase_first_block P bs) = length bs"
  by (induction bs) auto

lemma eraseSrcMI_ahead: "length (ahead (eraseSrcMI R st)) \<le> length (ahead st)"
  by (simp add: eraseSrcMI_def length_erase_first)

lemma eraseSrcMI_after: "length (blocks_after (eraseSrcMI R st)) = length (blocks_after st)"
  by (simp add: eraseSrcMI_def length_erase_first_block)

lemma rule_COPY_frame:
  assumes "rule_COPY MI st = Some (st', r)"
  shows "ahead st' = ahead st \<and> blocks_after st' = blocks_after st \<and> blocks_before st' = blocks_before st"
  using assms
  by (auto simp: rule_COPY_def createVirtualRegister_def Let_def
           split: if_splits bind_splits prod.splits)

lemma rule_PUSH_shape:
  assumes "rule_PUSH STI MI st = Some (st', r)"
  shows "st' = st \<or> (\<exists>R. st' = (eraseSrcMI R st)\<lparr>Changed := True\<rparr>)"
  using assms
  by (auto simp: rule_PUSH_def Let_def
           split: if_splits bind_splits option.splits MachineOperand.splits)

lemma dispatch_shape:
  assumes "dispatch STI MI st = Some (st', r)"
  shows "(ahead st' = ahead st \<and> blocks_after st' = blocks_after st \<and> blocks_before st' = blocks_before st)
       \<or> (\<exists>R. st' = (eraseSrcMI R st)\<lparr>Changed := True\<rparr>)"
proof (cases "switch_case (Opcode MI)")
  case Case_COPY
  with assms rule_COPY_frame show ?thesis by (simp add: dispatch_def)
next
  case Case_PUSH16r
  with assms rule_PUSH_shape [of STI MI st st' r] show ?thesis by (auto simp: dispatch_def)
next
  case Case_OR8ar
  with assms show ?thesis
    by (auto simp: dispatch_def rule_OR8ar_def rule_ADD8ar_def split: if_splits bind_splits)
qed (use assms in \<open>auto simp: dispatch_def rule_LD8rp_def rule_LD8ro_def rule_LD8pr_def
      rule_LD8or_def rule_ADD8ar_def rule_RLC8r_def rule_ADD8ap_def rule_ADD8ao_def
      rule_default_def split: if_splits bind_splits\<close>)

lemma step_ahead:
  assumes "step STI MI st = Some st'"
  shows "length (ahead st') \<le> length (ahead st)"
proof -
  from assms obtain st1 r where d: "dispatch STI MI st = Some (st1, r)"
    and a: "ahead st' = ahead st1"
    by (auto simp: step_def split: option.splits)
  from dispatch_shape [OF d] have "length (ahead st1) \<le> length (ahead st)"
    using eraseSrcMI_ahead [of _ st] by auto
  with a show ?thesis by simp
qed

lemma step_after:
  assumes "step STI MI st = Some st'"
  shows "length (blocks_after st') = length (blocks_after st)"
proof -
  from assms obtain st1 r where d: "dispatch STI MI st = Some (st1, r)"
    and a: "blocks_after st' = blocks_after st1"
    by (auto simp: step_def split: option.splits)
  from dispatch_shape [OF d] have "length (blocks_after st1) = length (blocks_after st)"
    using eraseSrcMI_after [of _ st] by auto
  with a show ?thesis by simp
qed

text \<open>
  \<open>while (I != E) { MachineInstr &MI = *I; ++I; ... }\<close> over the block whose
  remaining instructions are \<open>ahead\<close>.
\<close>

function walk :: "Z80Subtarget \<Rightarrow> pass_state \<Rightarrow> pass_state option" where
  "walk STI st =
     (case ahead st of
        [] \<Rightarrow> Some st
      | MI # rest \<Rightarrow>
          (case step STI MI (st\<lparr>ahead := rest\<rparr>) of
             None \<Rightarrow> None
           | Some st' \<Rightarrow> walk STI st'))"
  by pat_completeness auto
termination
proof (relation "measure (\<lambda>(STI, st). length (ahead st))")
  fix STI :: Z80Subtarget and st :: pass_state and MI rest st'
  assume "ahead st = MI # rest" and "step STI MI (st\<lparr>ahead := rest\<rparr>) = Some st'"
  then show "((STI, st'), (STI, st)) \<in> measure (\<lambda>(STI, st). length (ahead st))"
    using step_ahead [of STI MI "st\<lparr>ahead := rest\<rparr>" st'] by simp
qed simp

declare walk.simps [simp del]

lemma walk_after:
  "walk STI st = Some st' \<Longrightarrow> length (blocks_after st') = length (blocks_after st)"
proof (induction STI st rule: walk.induct)
  case (1 STI st)
  show ?case
  proof (cases "ahead st")
    case Nil
    with "1.prems" show ?thesis by (simp add: walk.simps [of STI st])
  next
    case (Cons MI rest)
    with "1.prems" obtain st1 where s: "step STI MI (st\<lparr>ahead := rest\<rparr>) = Some st1"
      and w: "walk STI st1 = Some st'"
      by (auto simp: walk.simps [of STI st] split: option.splits)
    from "1.IH" [OF Cons s w] step_after [OF s] show ?thesis by simp
  qed
qed

text \<open>
  \<open>for (MachineBasicBlock &MBB : MF)\<close>: every block is walked with a tracker of its own,
  default-constructed.
\<close>

function walkBlocks :: "Z80Subtarget \<Rightarrow> pass_state \<Rightarrow> pass_state option" where
  "walkBlocks STI st =
     (case blocks_after st of
        [] \<Rightarrow> Some st
      | MBB # rest \<Rightarrow>
          (case walk STI (st\<lparr>walked := [], ahead := MBB, blocks_after := rest,
                              SZFlagLoc := ValLoc_default\<rparr>) of
             None \<Rightarrow> None
           | Some st' \<Rightarrow> walkBlocks STI (st'\<lparr>blocks_before := blocks_before st' @ [walked st'], walked := []\<rparr>)))"
  by pat_completeness auto
termination
proof (relation "measure (\<lambda>(STI, st). length (blocks_after st))")
  fix STI :: Z80Subtarget and st :: pass_state and MBB rest st'
  assume "blocks_after st = MBB # rest"
    and "walk STI (st\<lparr>walked := [], ahead := MBB, blocks_after := rest, SZFlagLoc := ValLoc_default\<rparr>) = Some st'"
  then show "((STI, st'\<lparr>blocks_before := blocks_before st' @ [walked st'], walked := []\<rparr>), (STI, st))
               \<in> measure (\<lambda>(STI, st). length (blocks_after st))"
    using walk_after [of STI "st\<lparr>walked := [], ahead := MBB, blocks_after := rest, SZFlagLoc := ValLoc_default\<rparr>" st']
    by simp
qed simp

declare walkBlocks.simps [simp del]

text \<open>
  The machine function: its blocks and the table of its virtual registers. The pass
  returns \<open>Changed\<close>; the function is rewritten in place.
\<close>

record MachineFunction =
  Blocks :: "MachineInstr list list"
  RegInfo :: "RegClass list"

definition initial_state :: "MachineFunction \<Rightarrow> pass_state" where
  "initial_state MF =
     \<lparr>blocks_before = [], walked = [], ahead = [], blocks_after = Blocks MF, VRegs = RegInfo MF,
      Changed = False, SZFlagLoc = ValLoc_default, StaleAccess = False\<rparr>"

definition runOnMachineFunction ::
  "Z80Subtarget \<Rightarrow> MachineFunction \<Rightarrow> (bool \<times> MachineFunction) option" where
  "runOnMachineFunction STI MF =
     map_option (\<lambda>st. (Changed st, \<lparr>Blocks = blocks_before st, RegInfo = VRegs st\<rparr>))
       (walkBlocks STI (initial_state MF))"

section \<open>Sample inputs\<close>

text \<open>
  A subtarget with the extended opcodes whose overlap oracle relates a register to
  itself only, and instructions as instruction selection leaves them: the explicit
  operands first, then the implicit definitions and uses of the opcode.
\<close>

definition sample_STI :: Z80Subtarget where
  "sample_STI = \<lparr>hasEZ80Ops = True, regsOverlap = (\<lambda>RegA RegB. RegA = RegB)\<rparr>"

definition sample_ADD8ar :: MachineInstr where
  "sample_ADD8ar =
     \<lparr>Opcode = ''ADD8ar'',
      Operands = [MO_Register (index2VirtReg 0) False False, MO_Register Z80_A True True,
                  MO_Register Z80_F True True, MO_Register Z80_A False True],
      DebugLoc = 10\<rparr>"

definition sample_OR8ar :: MachineInstr where
  "sample_OR8ar =
     \<lparr>Opcode = ''OR8ar'',
      Operands = [MO_Register Z80_A False False, MO_Register Z80_A True True,
                  MO_Register Z80_F True True, MO_Register Z80_A False True],
      DebugLoc = 11\<rparr>"

definition sample_LD8ro :: "32 word \<Rightarrow> MachineInstr" where
  "sample_LD8ro FI =
     \<lparr>Opcode = ''LD8ro'',
      Operands = [MO_Register (index2VirtReg 1) True False, MO_FrameIndex FI, MO_Immediate 3],
      DebugLoc = 12\<rparr>"

definition sample_INC8o :: "32 word \<Rightarrow> MachineInstr" where
  "sample_INC8o FI =
     \<lparr>Opcode = ''INC8o'',
      Operands = [MO_FrameIndex FI, MO_Immediate 3, MO_Register Z80_F True True],
      DebugLoc = 13\<rparr>"

definition sample_COPY :: MachineInstr where
  "sample_COPY =
     \<lparr>Opcode = ''COPY'',
      Operands = [MO_Register (index2VirtReg 1) True False, MO_Register Z80_A False False],
      DebugLoc = 14\<rparr>"

definition sample_INC8r :: MachineInstr where
  "sample_INC8r =
     \<lparr>Opcode = ''INC8r'',
      Operands = [MO_Register (index2VirtReg 1) True False, MO_Register (index2VirtReg 0) False False,
                  MO_Register Z80_F True True],
      DebugLoc = 15\<rparr>"

definition sample_MF :: MachineFunction where
  "sample_MF = \<lparr>Blocks = [[sample_ADD8ar, sample_OR8ar]], RegInfo = [OtherRegClass 0]\<rparr>"

definition sample_COPY_SPL :: MachineInstr where
  "sample_COPY_SPL =
     \<lparr>Opcode = ''COPY'',
      Operands = [MO_Register Z80_SPL True False, MO_Register (index2VirtReg 0) False False],
      DebugLoc = 16\<rparr>"

definition sample_LEA24ro :: "MachineOperand \<Rightarrow> 64 word \<Rightarrow> MachineInstr" where
  "sample_LEA24ro BaseMO off =
     \<lparr>Opcode = ''LEA24ro'',
      Operands = [MO_Register (index2VirtReg 0) True False, BaseMO, MO_Immediate off],
      DebugLoc = 17\<rparr>"

definition sample_PUSH24r :: MachineInstr where
  "sample_PUSH24r =
     \<lparr>Opcode = ''PUSH24r'',
      Operands = [MO_Register (index2VirtReg 0) False False, MO_Register Z80_SPL True True,
                  MO_Register Z80_SPL False True],
      DebugLoc = 18\<rparr>"

definition sample_state :: "MachineInstr list list \<Rightarrow> MachineInstr list \<Rightarrow> pass_state" where
  "sample_state done todo =
     \<lparr>blocks_before = done, walked = [], ahead = todo, blocks_after = [],
      VRegs = [OtherRegClass 0, OtherRegClass 0], Changed = False,
      SZFlagLoc = ValLoc_default, StaleAccess = False\<rparr>"

definition sample_base :: MachineOperand where
  "sample_base = MO_Register (index2VirtReg 1) False False"

definition sample_LD8am :: MachineInstr where
  "sample_LD8am =
     \<lparr>Opcode = ''LD8am'',
      Operands = [MO_Immediate 4096, MO_Register Z80_A True True],
      DebugLoc = 19\<rparr>"

text \<open>
  A store of the accumulator through a pointer, and whole functions for the runs of
  the pass; their register table has the two virtual registers the sample instructions
  use. \<open>sample_pushed off\<close> is the instruction that the push/effective-address fusion
  makes of the push of \<open>sample_MF_push off\<close>.
\<close>

definition sample_LD8pr :: MachineInstr where
  "sample_LD8pr =
     \<lparr>Opcode = ''LD8pr'',
      Operands = [MO_Register (index2VirtReg 1) False False, MO_Register Z80_A False False],
      DebugLoc = 21\<rparr>"

definition sample_MF_self_OR :: MachineFunction where
  "sample_MF_self_OR =
     \<lparr>Blocks = [[sample_ADD8ar, sample_OR8ar], [sample_LD8am, sample_OR8ar]],
      RegInfo = [OtherRegClass 0, OtherRegClass 0]\<rparr>"

definition sample_MF_copy :: MachineFunction where
  "sample_MF_copy =
     \<lparr>Blocks = [[sample_ADD8ar, sample_COPY_SPL]],
      RegInfo = [OtherRegClass 0, OtherRegClass 0]\<rparr>"

definition sample_MF_push :: "64 word \<Rightarrow> MachineFunction" where
  "sample_MF_push off =
     \<lparr>Blocks = [[sample_LEA24ro sample_base off, sample_PUSH24r]],
      RegInfo = [OtherRegClass 0, OtherRegClass 0]\<rparr>"

definition sample_MF_store :: MachineFunction where
  "sample_MF_store =
     \<lparr>Blocks = [[sample_ADD8ar, sample_LD8pr, sample_OR8ar]],
      RegInfo = [OtherRegClass 0, OtherRegClass 0]\<rparr>"


definition sample_MF_reload :: MachineFunction where
  "sample_MF_reload =
     \<lparr>Blocks = [[sample_ADD8ar, sample_LD8am, sample_OR8ar]],
      RegInfo = [OtherRegClass 0, OtherRegClass 0]\<rparr>"

section \<open>Blocks that lose load-effective-address instructions\<close>

text \<open>
  \<open>only_LEA_erased new old\<close>: the block \<open>new\<close> is the block \<open>old\<close> with some of its
  \<open>LEA16ro\<close> and \<open>LEA24ro\<close> instructions deleted, and nothing else changed.
\<close>

definition only_LEA_erased :: "MachineInstr list \<Rightarrow> MachineInstr list \<Rightarrow> bool" where
  "only_LEA_erased new old =
     (subseq new old
      \<and> filter (\<lambda>I. Opcode I \<noteq> ''LEA16ro'' \<and> Opcode I \<noteq> ''LEA24ro'') new
        = filter (\<lambda>I. Opcode I \<noteq> ''LEA16ro'' \<and> Opcode I \<noteq> ''LEA24ro'') old)"

text \<open>The two opcodes the push/effective-address fusion deletes.\<close>

definition isLEA :: "MachineInstr \<Rightarrow> bool" where
  "isLEA MI = (Opcode MI = ''LEA16ro'' \<or> Opcode MI = ''LEA24ro'')"

section \<open>The rest of a run\<close>

text \<open>
  \<open>run_from STI st\<close> is what the pass returns when it goes on from the state \<open>st\<close> in
  the middle of a block: the \<open>while\<close> loop over what is \<open>ahead\<close>, then the \<open>for\<close> loop
  over the blocks that follow, then the result as \<open>runOnMachineFunction\<close> returns it.
\<close>

definition run_from :: "Z80Subtarget \<Rightarrow> pass_state \<Rightarrow> (bool \<times> MachineFunction) option" where
  "run_from STI st =
     map_option (\<lambda>st. (Changed st, \<lparr>Blocks = blocks_before st, RegInfo = VRegs st\<rparr>))
       (case walk STI st of
          None \<Rightarrow> None
        | Some st' \<Rightarrow> walkBlocks STI (st'\<lparr>blocks_before := blocks_before st' @ [walked st'], walked := []\<rparr>))"

text \<open>
  \<open>pass_takes STI res k MI st\<close>: the run that returns \<open>res\<close> is, in the state \<open>st\<close>, about
  to take the instruction \<open>MI\<close> of the block number \<open>k\<close>. The iterator has passed \<open>MI\<close>
  (\<open>MI = *I; ++I\<close>), which is therefore not in \<open>ahead st\<close>.
\<close>

definition pass_takes ::
  "Z80Subtarget \<Rightarrow> bool \<times> MachineFunction \<Rightarrow> nat \<Rightarrow> MachineInstr \<Rightarrow> pass_state \<Rightarrow> bool" where
  "pass_takes STI res k MI st =
     (length (blocks_before st) = k \<and> run_from STI (st\<lparr>ahead := MI # ahead st\<rparr>) = Some res)"



text \<open>
  What one turn of the loop, and so a walk, may do to the state apart from the tracker:
  the blocks before and after lose load-effective-address instructions, the walked part
  of the block loses such instructions and is extended, \<open>Changed\<close> is never reset and the
  register table is extended.
\<close>

definition grows :: "pass_state \<Rightarrow> pass_state \<Rightarrow> bool" where
  "grows st st' =
     (list_all2 only_LEA_erased (blocks_before st') (blocks_before st)
      \<and> list_all2 only_LEA_erased (blocks_after st') (blocks_after st)
      \<and> (\<exists>w new. walked st' = w @ new \<and> only_LEA_erased w (walked st))
      \<and> (Changed st \<longrightarrow> Changed st')
      \<and> prefix (VRegs st) (VRegs st'))"

section \<open>Evaluation on the sample inputs\<close>

lemmas tracker_defs =
  setReg_def setMem_def matchesReg_def matchesMem_def isValid_def NoRegister_def
  ValLoc_default_def Z80_A_def Z80_F_def Z80_SPS_def Z80_SPL_def

lemmas rule_defs =
  dispatch_def switch_case_def rule_COPY_def rule_PUSH_def rule_LD8rp_def rule_LD8ro_def
  rule_LD8pr_def rule_LD8or_def rule_ADD8ar_def rule_OR8ar_def rule_RLC8r_def rule_ADD8ap_def
  rule_ADD8ao_def rule_default_def

lemmas access_defs =
  getOperand_def getBaseReg_def setReg_MI_def setPtr_def setOff_def matchesReg_MI_def
  matchesPtr_def matchesOff_def clobberDefs_def defs_def modifiesRegister_def addOperand_def

lemmas run_defs =
  runOnMachineFunction_def initial_state_def walkBlocks.simps walk.simps step_def
  rule_defs access_defs tracker_defs

lemmas sample_defs =
  sample_STI_def sample_ADD8ar_def sample_OR8ar_def sample_LD8am_def sample_COPY_SPL_def
  sample_LEA24ro_def sample_PUSH24r_def sample_base_def sample_LD8pr_def sample_state_def
  sample_MF_self_OR_def sample_MF_copy_def sample_MF_push_def sample_MF_store_def


section \<open>Frame indices as memory bases\<close>

lemma index2StackSlot_valid: "0 \<le> sint FI \<Longrightarrow> isValid (index2StackSlot FI)"
proof -
  assume nn: "0 \<le> sint FI"
  have "FI + 2 ^ 30 \<noteq> 0"
  proof
    assume "FI + 2 ^ 30 = 0"
    then have "FI = - (2 ^ 30)" by (simp add: add_eq_0_iff2)
    then have "sint FI = sint (- (2 ^ 30) :: 32 word)" by simp
    also have "\<dots> < 0" by simp
    finally show False using nn by simp
  qed
  then show ?thesis by (simp add: isValid_def index2StackSlot_def)
qed

text \<open>
  Claim C10: an offset-form memory operand whose base is a frame index. A non-negative
  frame index is mapped to its stack-slot identifier, which is a valid register, so a
  tracker set through one access (\<open>setOff\<close>) matches a second access through the same
  frame index with an equal 8-bit offset (\<open>matchesOff\<close>). A negative frame index gives
  the invalid register: \<open>matchesOff\<close> on it is false for every tracker, and a tracker
  set through it matches no memory location at all.
\<close>

theorem C10_frame_index_base:
  assumes "getOperand MI1 n1 = Some (MO_FrameIndex FI)"
      and "getOperand MI1 (n1 + 1) = Some (MO_Immediate v1)"
      and "getOperand MI2 n2 = Some (MO_FrameIndex FI)"
      and "getOperand MI2 (n2 + 1) = Some (MO_Immediate v2)"
      and "(ucast v1 :: 8 word) = ucast v2"
  shows "(0 \<le> sint FI \<longrightarrow>
            getBaseReg MI1 n1 = Some (index2StackSlot FI) \<and> isValid (index2StackSlot FI)
            \<and> (\<exists>L'. setOff L MI1 n1 = Some L' \<and> matchesOff L' MI2 n2 = Some True))
       \<and> (sint FI < 0 \<longrightarrow>
            getBaseReg MI1 n1 = Some NoRegister \<and> \<not> isValid NoRegister
            \<and> matchesOff L MI2 n2 = Some False
            \<and> (\<exists>L'. setOff L MI1 n1 = Some L' \<and> (\<forall>B O1. \<not> matchesMem L' B O1)))"
  using assms index2StackSlot_valid [of FI]
  by (auto simp: getBaseReg_def setOff_def matchesOff_def setMem_def matchesMem_def
                 isValid_def NoRegister_def)

theorem C10_frame_index_base_witness:
  "getBaseReg (sample_INC8o 2) 0 = Some (index2StackSlot 2) \<and> isValid (index2StackSlot 2)
   \<and> (\<exists>L'. setOff ValLoc_default (sample_INC8o 2) 0 = Some L'
           \<and> matchesOff L' (sample_LD8ro 2) 1 = Some True)
   \<and> getBaseReg (sample_INC8o (- 1)) 0 = Some NoRegister
   \<and> matchesOff ValLoc_default (sample_LD8ro (- 1)) 1 = Some False"
  using C10_frame_index_base [of "sample_INC8o 2" 0 2 3 "sample_LD8ro 2" 1 3 ValLoc_default]
        C10_frame_index_base [of "sample_INC8o (- 1)" 0 "- 1" 3 "sample_LD8ro (- 1)" 1 3 ValLoc_default]
  by (simp add: sample_INC8o_def sample_LD8ro_def getOperand_def)

section \<open>The reported change\<close>

text \<open>
  Claim C5 says that the pass returns true whenever it has mutated the instruction
  stream, the deletion of a redundant self-OR included. On the block \<open>ADD8ar; OR8ar A\<close>
  the pass deletes the self-OR and returns false: the \<open>OR8ar\<close> case erases the
  instruction and leaves the \<open>switch\<close> without setting \<open>Changed\<close>, which the two other
  rewriting cases set.
\<close>

theorem C5_erase_reports_unchanged:
  "runOnMachineFunction sample_STI sample_MF
     = Some (False, \<lparr>Blocks = [[sample_ADD8ar]], RegInfo = [OtherRegClass 0]\<rparr>)"
  by (simp add: run_defs sample_MF_def sample_STI_def sample_ADD8ar_def sample_OR8ar_def)

section \<open>Reading an erased instruction\<close>

text \<open>
  Claim C8 says that no step that runs after a rewrite rule reads an instruction the
  rule erased. On the block \<open>ADD8ar; OR8ar A\<close> the \<open>OR8ar\<close> case erases \<open>MI\<close>, and the
  def-clobber step that follows the \<open>switch\<close> reads the definitions of that \<open>MI\<close>.
\<close>

theorem C8_reads_erased_instruction:
  "map_option (\<lambda>st. (StaleAccess st, blocks_before st)) (walkBlocks sample_STI (initial_state sample_MF))
     = Some (True, [[sample_ADD8ar]])"
  by (simp add: run_defs sample_MF_def sample_STI_def sample_ADD8ar_def sample_OR8ar_def)

section \<open>A fact set by an instruction and the instruction's own definitions\<close>

text \<open>
  Claim C2 says that a fact set to a destination of the instruction survives the
  def-clobber check of the same instruction. With an oracle under which a register
  overlaps itself this holds for the accumulator arithmetic only, whose destination is
  an implicit definition. A copy \<open>v := COPY A\<close> met while the tracker matches the
  accumulator retargets the tracker to \<open>v\<close>, and an \<open>INC8r\<close> sets it to its destination;
  in both cases the destination is the explicit definition of the instruction, and the
  def-clobber step clears the tracker at once.
\<close>

theorem C2_retarget_cleared:
  "map_option (\<lambda>r. SZFlagLoc (fst r))
     (dispatch sample_STI sample_COPY
        ((sample_state [] [])\<lparr>SZFlagLoc := setReg ValLoc_default Z80_A\<rparr>))
     = Some (setReg ValLoc_default (index2VirtReg 1))
   \<and> map_option SZFlagLoc (walk sample_STI (sample_state [] [sample_ADD8ar, sample_COPY]))
     = Some ValLoc_default
   \<and> map_option SZFlagLoc (walk sample_STI (sample_state [] [sample_INC8r]))
     = Some ValLoc_default"
  by (simp add: run_defs sample_state_def sample_STI_def sample_ADD8ar_def sample_COPY_def
        sample_INC8r_def index2VirtReg_def)

section \<open>One turn of the loop on a copy or a push\<close>







lemma list_ex_concat: "list_ex (list_ex P) bs = list_ex P (concat bs)"
  by (induction bs) auto



lemma find_skip:
  "find P (xs @ m # ys) = Some x \<Longrightarrow> x \<noteq> m \<Longrightarrow> find P (xs @ ys) = Some x"
  by (induction xs) (auto split: if_splits)

lemma getVRegDef_body:
  assumes "getVRegDef (function_instrs st MI) R = Some SrcMI" and "Opcode SrcMI \<noteq> Opcode MI"
  shows "find (definesReg R) (function_body st) = Some SrcMI"
proof -
  from assms(2) have "SrcMI \<noteq> MI" by auto
  with assms(1) find_skip [of "definesReg R" "concat (blocks_before st) @ walked st" MI
                              "ahead st @ concat (blocks_after st)" SrcMI]
  show ?thesis by (simp add: getVRegDef_def function_instrs_def function_body_def)
qed




section \<open>The blocks a walk touches\<close>

lemma only_LEA_erased_refl: "only_LEA_erased xs xs"
  by (simp add: only_LEA_erased_def)

lemma only_LEA_erased_trans:
  "only_LEA_erased xs ys \<Longrightarrow> only_LEA_erased ys zs \<Longrightarrow> only_LEA_erased xs zs"
  by (auto simp: only_LEA_erased_def intro: subseq_order.order_trans)

lemma blocks_refl: "list_all2 only_LEA_erased bs bs"
  by (simp add: list_all2_refl only_LEA_erased_refl)

lemma blocks_trans:
  "list_all2 only_LEA_erased as bs \<Longrightarrow> list_all2 only_LEA_erased bs cs
     \<Longrightarrow> list_all2 only_LEA_erased as cs"
  by (rule list_all2_trans [of only_LEA_erased only_LEA_erased only_LEA_erased])
     (auto intro: only_LEA_erased_trans)

lemma find_append_in: "list_ex P xs \<Longrightarrow> find P (xs @ ys) = find P xs"
  by (induction xs) auto

lemma find_append_out: "\<not> list_ex P xs \<Longrightarrow> find P (xs @ ys) = find P ys"
  by (induction xs) auto

lemma erase_first_LEA:
  assumes "find P b = Some x" and "Opcode x = ''LEA16ro'' \<or> Opcode x = ''LEA24ro''"
  shows "only_LEA_erased (erase_first P b) b"
  using assms
proof (induction b)
  case Nil
  then show ?case by simp
next
  case (Cons a b)
  show ?case
  proof (cases "P a")
    case True
    with Cons.prems show ?thesis by (auto simp: only_LEA_erased_def)
  next
    case False
    with Cons.prems Cons.IH show ?thesis by (auto simp: only_LEA_erased_def)
  qed
qed

lemma erase_first_block_LEA:
  assumes "list_ex P (concat bs) \<longrightarrow> find P (concat bs) = Some x"
      and "Opcode x = ''LEA16ro'' \<or> Opcode x = ''LEA24ro''"
  shows "list_all2 only_LEA_erased (erase_first_block P bs) bs"
  using assms
proof (induction bs)
  case Nil
  then show ?case by simp
next
  case (Cons b bs)
  show ?case
  proof (cases "list_ex P b")
    case True
    with Cons.prems have "find P b = Some x" by (simp add: find_append_in)
    from erase_first_LEA [OF this Cons.prems(2)] True show ?thesis
      by (simp add: blocks_refl)
  next
    case False
    with Cons.prems have "list_ex P (concat bs) \<longrightarrow> find P (concat bs) = Some x"
      by (simp add: find_append_out)
    from Cons.IH [OF this Cons.prems(2)] False show ?thesis
      by (simp add: only_LEA_erased_refl)
  qed
qed

lemma eraseSrcMI_other_blocks:
  assumes "find (definesReg R) (function_body st) = Some x"
      and "Opcode x = ''LEA16ro'' \<or> Opcode x = ''LEA24ro''"
  shows "list_all2 only_LEA_erased (blocks_before (eraseSrcMI R st)) (blocks_before st)
       \<and> list_all2 only_LEA_erased (blocks_after (eraseSrcMI R st)) (blocks_after st)"
proof (cases "list_ex (definesReg R) (concat (blocks_before st))")
  case True
  with assms(1) have "find (definesReg R) (concat (blocks_before st)) = Some x"
    by (simp add: function_body_def find_append_in)
  with erase_first_block_LEA [of "definesReg R" "blocks_before st" x] assms(2) True
  show ?thesis by (simp add: eraseSrcMI_def list_ex_concat blocks_refl)
next
  case False
  note nb = this
  show ?thesis
  proof (cases "list_ex (definesReg R) (walked st) \<or> list_ex (definesReg R) (ahead st)")
    case True
    with nb show ?thesis by (auto simp: eraseSrcMI_def list_ex_concat blocks_refl)
  next
    case False
    with nb assms(1) have "find (definesReg R) (concat (blocks_after st)) = Some x"
      by (simp add: function_body_def find_append_out)
    with erase_first_block_LEA [of "definesReg R" "blocks_after st" x] assms(2) False nb
    show ?thesis by (simp add: eraseSrcMI_def list_ex_concat blocks_refl)
  qed
qed

lemma switch_case_PUSH:
  "switch_case Opc = Case_PUSH16r \<Longrightarrow> Opc = ''PUSH16r'' \<or> Opc = ''PUSH24r''"
  by (simp add: switch_case_def split: if_splits)

lemma rule_PUSH_fires:
  assumes "rule_PUSH STI MI st = Some (st', r)"
  shows "st' = st \<or> (\<exists>R SrcMI. st' = (eraseSrcMI R st)\<lparr>Changed := True\<rparr>
            \<and> getVRegDef (function_instrs st MI) R = Some SrcMI
            \<and> Opcode SrcMI = (if Opcode MI = ''PUSH24r'' then ''LEA24ro'' else ''LEA16ro''))"
  using assms
  by (auto simp: rule_PUSH_def Let_def
           split: if_splits bind_splits option.splits MachineOperand.splits)

lemma dispatch_frame:
  assumes "dispatch STI MI st = Some (st', r)" and "switch_case (Opcode MI) \<noteq> Case_PUSH16r"
  shows "blocks_before st' = blocks_before st \<and> blocks_after st' = blocks_after st"
proof (cases "switch_case (Opcode MI)")
  case Case_COPY
  with assms rule_COPY_frame show ?thesis by (simp add: dispatch_def)
next
  case Case_PUSH16r
  with assms show ?thesis by simp
next
  case Case_OR8ar
  with assms show ?thesis
    by (auto simp: dispatch_def rule_OR8ar_def rule_ADD8ar_def split: if_splits bind_splits)
qed (use assms in \<open>auto simp: dispatch_def rule_LD8rp_def rule_LD8ro_def rule_LD8pr_def
      rule_LD8or_def rule_ADD8ar_def rule_RLC8r_def rule_ADD8ap_def rule_ADD8ao_def
      rule_default_def split: if_splits bind_splits\<close>)






section \<open>The run reaches every instruction\<close>


lemma ole_def2:
  "only_LEA_erased new old
     = (subseq new old \<and> filter (\<lambda>I. \<not> isLEA I) new = filter (\<lambda>I. \<not> isLEA I) old)"
  by (simp add: only_LEA_erased_def isLEA_def)

lemma ole_length: "only_LEA_erased ys xs \<Longrightarrow> length ys \<le> length xs"
  by (auto simp: ole_def2 dest: list_emb_length)

lemma ole_set: "only_LEA_erased ys xs \<Longrightarrow> set ys \<subseteq> set xs"
  by (auto simp: ole_def2 dest: list_emb_set)

lemma ole_Nil: "only_LEA_erased ys [] = (ys = [])"
  by (auto simp: ole_def2)

lemma ole_append_split:
  assumes "only_LEA_erased ys (as @ bs)"
  obtains ya yb where "ys = ya @ yb" "only_LEA_erased ya as" "only_LEA_erased yb bs"
proof -
  let ?N = "\<lambda>I. \<not> isLEA I"
  from assms have s: "subseq ys (as @ bs)" and f: "filter ?N ys = filter ?N (as @ bs)"
    by (simp_all add: ole_def2)
  from s obtain ya yb where y: "ys = ya @ yb" and sa: "subseq ya as" and sb: "subseq yb bs"
    by (auto simp: subseq_append_iff)
  have la: "length (filter ?N ya) \<le> length (filter ?N as)"
    using subseq_filter [OF sa, of ?N] by (rule list_emb_length)
  have lb: "length (filter ?N yb) \<le> length (filter ?N bs)"
    using subseq_filter [OF sb, of ?N] by (rule list_emb_length)
  from f y have e: "filter ?N ya @ filter ?N yb = filter ?N as @ filter ?N bs" by simp
  then have "length (filter ?N ya) + length (filter ?N yb)
               = length (filter ?N as) + length (filter ?N bs)"
    by (metis length_append)
  with la lb have "length (filter ?N ya) = length (filter ?N as)" by arith
  with e have "filter ?N ya = filter ?N as \<and> filter ?N yb = filter ?N bs" by simp
  with sa sb have "only_LEA_erased ya as" "only_LEA_erased yb bs"
    by (simp_all add: ole_def2)
  with y that show thesis by blast
qed

lemma ole_append:
  "only_LEA_erased a b \<Longrightarrow> only_LEA_erased c d \<Longrightarrow> only_LEA_erased (a @ c) (b @ d)"
  by (auto simp: ole_def2 intro: list_emb_append_mono)

lemma ole_keep_all:
  assumes "only_LEA_erased ys xs" and "\<forall>x\<in>set xs. \<not> isLEA x"
  shows "ys = xs"
proof -
  from assms(1) have "set ys \<subseteq> set xs" by (rule ole_set)
  with assms(2) have "\<forall>y\<in>set ys. \<not> isLEA y" by auto
  with assms show ?thesis by (simp add: ole_def2)
qed


lemma ole_mid:
  assumes "only_LEA_erased ys (pre @ x # post)" and "\<not> isLEA x"
  obtains p q where "ys = p @ x # q" "only_LEA_erased p pre" "only_LEA_erased q post"
proof -
  from assms(1) obtain p r where 1: "ys = p @ r" "only_LEA_erased p pre" "only_LEA_erased r (x # post)"
    by (rule ole_append_split)
  from 1(3) have "only_LEA_erased r ([x] @ post)" by simp
  then obtain a q where 2: "r = a @ q" "only_LEA_erased a [x]" "only_LEA_erased q post"
    by (rule ole_append_split)
  from ole_keep_all [OF 2(2)] assms(2) have "a = [x]" by simp
  with 1 2 that show thesis by simp
qed

lemma blocks_append_split:
  assumes "list_all2 only_LEA_erased Bs (As @ B # Cs)"
  obtains As' B' Cs' where "Bs = As' @ B' # Cs'" "list_all2 only_LEA_erased As' As"
    "only_LEA_erased B' B" "list_all2 only_LEA_erased Cs' Cs"
  using assms by (auto simp: list_all2_append2 list_all2_Cons2)

lemma grows_refl: "grows st st"
  by (auto simp: grows_def blocks_refl intro: only_LEA_erased_refl exI [of _ "walked st"])

lemma grows_trans:
  assumes "grows a b" and "grows b c"
  shows "grows a c"
proof -
  from assms(1) obtain w1 n1 where 1: "walked b = w1 @ n1" "only_LEA_erased w1 (walked a)"
    by (auto simp: grows_def)
  from assms(2) obtain w2 n2 where 2: "walked c = w2 @ n2" "only_LEA_erased w2 (walked b)"
    by (auto simp: grows_def)
  from 2(2) 1(1) obtain x y where 3: "w2 = x @ y" "only_LEA_erased x w1" "only_LEA_erased y n1"
    by (auto elim: ole_append_split)
  from 3(2) 1(2) have "only_LEA_erased x (walked a)" by (rule only_LEA_erased_trans)
  with 2(1) 3(1) have "\<exists>w new. walked c = w @ new \<and> only_LEA_erased w (walked a)"
    by auto
  with assms show ?thesis
    by (auto simp: grows_def intro: blocks_trans)
qed

lemma grows_ahead [simp]: "grows (st\<lparr>ahead := xs\<rparr>) st' = grows st st'"
  by (simp add: grows_def)

lemma eraseSrcMI_grows:
  assumes "find (definesReg R) (function_body st) = Some x" and "isLEA x"
  shows "grows st (eraseSrcMI R st) \<and> only_LEA_erased (ahead (eraseSrcMI R st)) (ahead st)"
proof -
  from assms(2) have lea: "Opcode x = ''LEA16ro'' \<or> Opcode x = ''LEA24ro''"
    by (simp add: isLEA_def)
  note ob = eraseSrcMI_other_blocks [OF assms(1) lea]
  let ?P = "definesReg R"
  have w: "only_LEA_erased (walked (eraseSrcMI R st)) (walked st)
           \<and> only_LEA_erased (ahead (eraseSrcMI R st)) (ahead st)"
  proof (cases "list_ex ?P (concat (blocks_before st))")
    case True
    then show ?thesis by (simp add: eraseSrcMI_def list_ex_concat only_LEA_erased_refl)
  next
    case nb: False
    show ?thesis
    proof (cases "list_ex ?P (walked st)")
      case True
      with nb assms(1) have "find ?P (walked st) = Some x"
        by (simp add: function_body_def find_append_out find_append_in)
      from erase_first_LEA [OF this lea] True nb show ?thesis
        by (simp add: eraseSrcMI_def list_ex_concat only_LEA_erased_refl)
    next
      case nw: False
      show ?thesis
      proof (cases "list_ex ?P (ahead st)")
        case True
        with nb nw assms(1) have "find ?P (ahead st) = Some x"
          by (simp add: function_body_def find_append_out find_append_in)
        from erase_first_LEA [OF this lea] True nb nw show ?thesis
          by (simp add: eraseSrcMI_def list_ex_concat only_LEA_erased_refl)
      next
        case False
        with nb nw show ?thesis
          by (simp add: eraseSrcMI_def list_ex_concat only_LEA_erased_refl)
      qed
    qed
  qed
  have v: "VRegs (eraseSrcMI R st) = VRegs st \<and> Changed (eraseSrcMI R st) = Changed st"
    by (simp add: eraseSrcMI_def)
  from ob w v show ?thesis
    by (auto simp: grows_def intro: exI [of _ "walked (eraseSrcMI R st)"])
qed

lemma rule_COPY_grows:
  assumes "rule_COPY MI st = Some (st', r)"
  shows "(\<exists>ex. walked st' = walked st @ ex) \<and> (Changed st \<longrightarrow> Changed st')
         \<and> (\<exists>ext. VRegs st' = VRegs st @ ext)"
  using assms
  by (auto simp: rule_COPY_def createVirtualRegister_def Let_def
           split: if_splits bind_splits prod.splits)

lemma dispatch_nonPUSH_grows:
  assumes "dispatch STI MI st = Some (st', r)" and "switch_case (Opcode MI) \<noteq> Case_PUSH16r"
  shows "(\<exists>ex. walked st' = walked st @ ex) \<and> (Changed st \<longrightarrow> Changed st')
         \<and> (\<exists>ext. VRegs st' = VRegs st @ ext) \<and> ahead st' = ahead st"
proof (cases "switch_case (Opcode MI)")
  case Case_COPY
  with assms rule_COPY_grows [of MI st st' r] rule_COPY_frame [of MI st st' r] show ?thesis
    by (simp add: dispatch_def)
next
  case Case_PUSH16r
  with assms show ?thesis by simp
next
  case Case_OR8ar
  with assms show ?thesis
    by (auto simp: dispatch_def rule_OR8ar_def rule_ADD8ar_def split: if_splits bind_splits)
qed (use assms in \<open>auto simp: dispatch_def rule_LD8rp_def rule_LD8ro_def rule_LD8pr_def
      rule_LD8or_def rule_ADD8ar_def rule_RLC8r_def rule_ADD8ap_def rule_ADD8ao_def
      rule_default_def split: if_splits bind_splits\<close>)

lemma dispatch_grows:
  assumes "dispatch STI MI st = Some (st', r)"
  shows "grows st st' \<and> only_LEA_erased (ahead st') (ahead st)"
proof (cases "switch_case (Opcode MI) = Case_PUSH16r")
  case False
  from dispatch_nonPUSH_grows [OF assms False] dispatch_frame [OF assms False]
  show ?thesis
    by (auto simp: grows_def blocks_refl only_LEA_erased_refl prefix_def
             intro: exI [of _ "walked st"])
next
  case True
  with assms have p: "rule_PUSH STI MI st = Some (st', r)" by (simp add: dispatch_def)
  from rule_PUSH_fires [OF p] show ?thesis
  proof
    assume "st' = st"
    then show ?thesis by (simp add: grows_refl only_LEA_erased_refl)
  next
    assume "\<exists>R SrcMI. st' = (eraseSrcMI R st)\<lparr>Changed := True\<rparr>
            \<and> getVRegDef (function_instrs st MI) R = Some SrcMI
            \<and> Opcode SrcMI = (if Opcode MI = ''PUSH24r'' then ''LEA24ro'' else ''LEA16ro'')"
    then obtain R SrcMI where s: "st' = (eraseSrcMI R st)\<lparr>Changed := True\<rparr>"
      and g: "getVRegDef (function_instrs st MI) R = Some SrcMI"
      and o: "Opcode SrcMI = (if Opcode MI = ''PUSH24r'' then ''LEA24ro'' else ''LEA16ro'')"
      by blast
    from o switch_case_PUSH [OF True] have ne: "Opcode SrcMI \<noteq> Opcode MI" by auto
    from o have lea: "isLEA SrcMI" by (simp add: isLEA_def)
    from eraseSrcMI_grows [OF getVRegDef_body [OF g ne] lea] s show ?thesis
      by (simp add: grows_def)
  qed
qed

lemma step_grows:
  assumes "step STI MI st = Some st'"
  shows "grows st st' \<and> only_LEA_erased (ahead st') (ahead st)"
proof -
  from assms obtain st1 r where d: "dispatch STI MI st = Some (st1, r)"
    and b: "blocks_before st' = blocks_before st1" and a: "blocks_after st' = blocks_after st1"
    and h: "ahead st' = ahead st1" and c: "Changed st' = Changed st1" and v: "VRegs st' = VRegs st1"
    and w: "\<exists>ex. walked st' = walked st1 @ ex"
    by (auto simp: step_def split: option.splits)
  from dispatch_grows [OF d] have g: "grows st st1" and o: "only_LEA_erased (ahead st1) (ahead st)"
    by simp_all
  from g obtain w0 n0 where "walked st1 = w0 @ n0" "only_LEA_erased w0 (walked st)"
    by (auto simp: grows_def)
  with w have "\<exists>w new. walked st' = w @ new \<and> only_LEA_erased w (walked st)" by auto
  with g o a b h c v show ?thesis by (simp add: grows_def)
qed

lemma walk_grows:
  "walk STI st = Some st' \<Longrightarrow> grows st st' \<and> ahead st' = []"
proof (induction STI st rule: walk.induct)
  case (1 STI st)
  show ?case
  proof (cases "ahead st")
    case Nil
    with "1.prems" show ?thesis by (simp add: walk.simps [of STI st] grows_refl)
  next
    case (Cons MI rest)
    with "1.prems" obtain st1 where s: "step STI MI (st\<lparr>ahead := rest\<rparr>) = Some st1"
      and w: "walk STI st1 = Some st'"
      by (auto simp: walk.simps [of STI st] split: option.splits)
    from step_grows [OF s] have "grows st st1" by simp
    with "1.IH" [OF Cons s w] show ?thesis
      by (auto intro: grows_trans)
  qed
qed

lemma grows_set_ahead: "grows st (st\<lparr>ahead := xs\<rparr>)"
  using grows_refl [of st] by (simp add: grows_def)

lemma grows_length:
  "grows st st' \<Longrightarrow> length (blocks_before st') = length (blocks_before st)
                    \<and> length (blocks_after st') = length (blocks_after st)"
  by (auto simp: grows_def dest: list_all2_lengthD)

lemma walk_reach:
  assumes "walk STI st = Some fin"
      and "ahead st = pre @ MI # post"
      and "\<not> isLEA MI"
      and "J (SZFlagLoc st)"
      and "\<forall>I\<in>set pre. \<forall>s s'. J (SZFlagLoc s) \<longrightarrow> step STI I s = Some s' \<longrightarrow> J (SZFlagLoc s')"
  shows "\<exists>st1 st2. grows st st1 \<and> only_LEA_erased (ahead st1) post \<and> J (SZFlagLoc st1)
           \<and> (pre = [] \<longrightarrow> st1 = st\<lparr>ahead := post\<rparr>)
           \<and> step STI MI st1 = Some st2 \<and> walk STI st2 = Some fin"
  using assms
proof (induction "length pre" arbitrary: st pre post rule: less_induct)
  case less
  show ?case
  proof (cases pre)
    case Nil
    with less.prems(1,2) obtain st2 where s: "step STI MI (st\<lparr>ahead := post\<rparr>) = Some st2"
      and w: "walk STI st2 = Some fin"
      by (auto simp: walk.simps [of STI st] split: option.splits)
    from s w less.prems(4) grows_set_ahead [of st post] show ?thesis
      by (intro exI [of _ "st\<lparr>ahead := post\<rparr>"] exI [of _ st2])
         (simp add: only_LEA_erased_refl)
  next
    case (Cons P pre')
    with less.prems(1,2) obtain s2 where s: "step STI P (st\<lparr>ahead := pre' @ MI # post\<rparr>) = Some s2"
      and w: "walk STI s2 = Some fin"
      by (auto simp: walk.simps [of STI st] split: option.splits)
    from step_grows [OF s] have g: "grows st s2"
      and o: "only_LEA_erased (ahead s2) (pre' @ MI # post)" by simp_all
    from o less.prems(3) obtain p q where a: "ahead s2 = p @ MI # q"
      and op: "only_LEA_erased p pre'" and oq: "only_LEA_erased q post"
      by (rule ole_mid)
    from ole_length [OF op] Cons have l: "length p < length pre" by simp
    from ole_set [OF op] Cons have sub: "set p \<subseteq> set pre" by auto
    from less.prems(4) have ja: "J (SZFlagLoc (st\<lparr>ahead := pre' @ MI # post\<rparr>))" by simp
    from less.prems(5) Cons
    have "\<forall>s s'. J (SZFlagLoc s) \<longrightarrow> step STI P s = Some s' \<longrightarrow> J (SZFlagLoc s')" by simp
    from this [rule_format, OF ja s] have j: "J (SZFlagLoc s2)" .
    from less.prems(5) sub
    have p5: "\<forall>I\<in>set p. \<forall>s s'. J (SZFlagLoc s) \<longrightarrow> step STI I s = Some s' \<longrightarrow> J (SZFlagLoc s')"
      by blast
    from less.hyps [OF l w a less.prems(3) j p5]
    obtain st1 st2 where r: "grows s2 st1" "only_LEA_erased (ahead st1) q" "J (SZFlagLoc st1)"
      "step STI MI st1 = Some st2" "walk STI st2 = Some fin"
      by blast
    from grows_trans [OF g r(1)] only_LEA_erased_trans [OF r(2) oq] r(3,4,5) Cons
    show ?thesis by blast
  qed
qed



lemma walkBlocks_reach:
  assumes "walkBlocks STI s = Some fin" and "blocks_after s = Bs1 @ B # Bs2"
  shows "\<exists>s1. only_LEA_erased (ahead s1) B \<and> list_all2 only_LEA_erased (blocks_after s1) Bs2
           \<and> length (blocks_before s1) = length (blocks_before s) + length Bs1
           \<and> (Changed s \<longrightarrow> Changed s1) \<and> prefix (VRegs s) (VRegs s1)
           \<and> walked s1 = [] \<and> SZFlagLoc s1 = ValLoc_default
           \<and> (\<exists>mid. walk STI s1 = Some mid
                 \<and> walkBlocks STI (mid\<lparr>blocks_before := blocks_before mid @ [walked mid], walked := []\<rparr>)
                     = Some fin)"
  using assms
proof (induction "length Bs1" arbitrary: s Bs1 B Bs2)
  case 0
  let ?s0 = "s\<lparr>walked := [], ahead := B, blocks_after := Bs2, SZFlagLoc := ValLoc_default\<rparr>"
  from 0 obtain mid where w: "walk STI ?s0 = Some mid"
    and b: "walkBlocks STI (mid\<lparr>blocks_before := blocks_before mid @ [walked mid], walked := []\<rparr>) = Some fin"
    by (auto simp: walkBlocks.simps [of STI s] split: option.splits)
  from w b 0(1) show ?case
    by (intro exI [of _ ?s0]) (simp add: only_LEA_erased_refl blocks_refl)
next
  case (Suc n)
  from Suc(2) obtain X Bs1' where c: "Bs1 = X # Bs1'" and n: "n = length Bs1'"
    by (cases Bs1) auto
  let ?s0 = "s\<lparr>walked := [], ahead := X, blocks_after := Bs1' @ B # Bs2, SZFlagLoc := ValLoc_default\<rparr>"
  let ?nx = "\<lambda>mid. mid\<lparr>blocks_before := blocks_before mid @ [walked mid], walked := []\<rparr>"
  from Suc.prems c obtain mid where w: "walk STI ?s0 = Some mid"
    and b: "walkBlocks STI (?nx mid) = Some fin"
    by (auto simp: walkBlocks.simps [of STI s] split: option.splits)
  from walk_grows [OF w] have g: "grows ?s0 mid" by simp
  then have ga: "list_all2 only_LEA_erased (blocks_after mid) (Bs1' @ B # Bs2)"
    and gl: "length (blocks_before mid) = length (blocks_before s)"
    and gc: "Changed s \<longrightarrow> Changed mid" and gv: "prefix (VRegs s) (VRegs mid)"
    by (auto simp: grows_def dest: list_all2_lengthD)
  from ga obtain As' B' Cs' where sp: "blocks_after mid = As' @ B' # Cs'"
    and r1: "list_all2 only_LEA_erased As' Bs1'"
    and r2: "only_LEA_erased B' B" and r3: "list_all2 only_LEA_erased Cs' Bs2"
    by (rule blocks_append_split)
  from sp have sp': "blocks_after (?nx mid) = As' @ B' # Cs'" by simp
  from r1 have l1: "length As' = length Bs1'" by (rule list_all2_lengthD)
  with n have n': "n = length As'" by simp
  from Suc.hyps(1) [OF n' b sp'] obtain s1 where
    i: "only_LEA_erased (ahead s1) B'" "list_all2 only_LEA_erased (blocks_after s1) Cs'"
       "length (blocks_before s1) = length (blocks_before (?nx mid)) + length As'"
       "Changed (?nx mid) \<longrightarrow> Changed s1" "prefix (VRegs (?nx mid)) (VRegs s1)"
       "walked s1 = []" "SZFlagLoc s1 = ValLoc_default"
       "\<exists>m. walk STI s1 = Some m \<and> walkBlocks STI (?nx m) = Some fin"
    by blast
  from i(1) r2 have a: "only_LEA_erased (ahead s1) B" by (rule only_LEA_erased_trans)
  from i(2) r3 have t: "list_all2 only_LEA_erased (blocks_after s1) Bs2" by (rule blocks_trans)
  from i(3) gl l1 c have l: "length (blocks_before s1) = length (blocks_before s) + length Bs1"
    by simp
  from i(4) gc have ch: "Changed s \<longrightarrow> Changed s1" by simp
  from i(5) gv have v: "prefix (VRegs s) (VRegs s1)" by auto
  from a t l ch v i(6,7,8) show ?case by blast
qed


lemma run_takes:
  assumes "runOnMachineFunction STI MF = Some (c, MF')"
      and "Blocks MF = Bs1 @ (pre @ MI # post) # Bs2"
      and "\<not> isLEA MI"
      and "J ValLoc_default"
      and "\<forall>I\<in>set pre. \<forall>s s'. J (SZFlagLoc s) \<longrightarrow> step STI I s = Some s' \<longrightarrow> J (SZFlagLoc s')"
  shows "\<exists>st st'. length (blocks_before st) = length Bs1
           \<and> list_all2 only_LEA_erased (blocks_after st) Bs2
           \<and> only_LEA_erased (ahead st) post
           \<and> prefix (RegInfo MF) (VRegs st)
           \<and> J (SZFlagLoc st)
           \<and> (pre = [] \<longrightarrow> walked st = [] \<and> SZFlagLoc st = ValLoc_default)
           \<and> step STI MI st = Some st'
           \<and> run_from STI st' = Some (c, MF')"
proof -
  from assms(1) obtain fin where wb: "walkBlocks STI (initial_state MF) = Some fin"
    and r: "(c, MF') = (Changed fin, \<lparr>Blocks = blocks_before fin, RegInfo = VRegs fin\<rparr>)"
    by (auto simp: runOnMachineFunction_def)
  from assms(2) have ba: "blocks_after (initial_state MF) = Bs1 @ (pre @ MI # post) # Bs2"
    by (simp add: initial_state_def)
  from walkBlocks_reach [OF wb ba] obtain s1 mid where
    a: "only_LEA_erased (ahead s1) (pre @ MI # post)"
    and t: "list_all2 only_LEA_erased (blocks_after s1) Bs2"
    and l: "length (blocks_before s1) = length Bs1"
    and v: "prefix (RegInfo MF) (VRegs s1)"
    and e: "walked s1 = []" "SZFlagLoc s1 = ValLoc_default"
    and w: "walk STI s1 = Some mid"
    and b: "walkBlocks STI (mid\<lparr>blocks_before := blocks_before mid @ [walked mid], walked := []\<rparr>) = Some fin"
    by (auto simp: initial_state_def)
  from a assms(3) obtain p q where sp: "ahead s1 = p @ MI # q"
    and op: "only_LEA_erased p pre" and oq: "only_LEA_erased q post"
    by (rule ole_mid)
  from ole_set [OF op] have sub: "set p \<subseteq> set pre" .
  from e(2) assms(4) have j: "J (SZFlagLoc s1)" by simp
  from assms(5) sub
  have p5: "\<forall>I\<in>set p. \<forall>s s'. J (SZFlagLoc s) \<longrightarrow> step STI I s = Some s' \<longrightarrow> J (SZFlagLoc s')"
    by blast
  from walk_reach [OF w sp assms(3), of J, OF j p5]
  obtain st1 st2 where g: "grows s1 st1" and o: "only_LEA_erased (ahead st1) q"
    and j1: "J (SZFlagLoc st1)" and pn: "p = [] \<longrightarrow> st1 = s1\<lparr>ahead := q\<rparr>"
    and s: "step STI MI st1 = Some st2" and w2: "walk STI st2 = Some mid"
    by blast
  from g l have l1: "length (blocks_before st1) = length Bs1"
    by (auto simp: grows_def dest: list_all2_lengthD)
  from g t have t1: "list_all2 only_LEA_erased (blocks_after st1) Bs2"
    by (auto simp: grows_def intro: blocks_trans)
  from o oq have o1: "only_LEA_erased (ahead st1) post" by (rule only_LEA_erased_trans)
  from g v have v1: "prefix (RegInfo MF) (VRegs st1)" by (auto simp: grows_def)
  from op have "pre = [] \<longrightarrow> p = []" by (auto simp: ole_Nil)
  with pn e have e1: "pre = [] \<longrightarrow> walked st1 = [] \<and> SZFlagLoc st1 = ValLoc_default" by auto
  from w2 b r have rf: "run_from STI st2 = Some (c, MF')" by (simp add: run_from_def)
  from l1 t1 o1 v1 j1 e1 s rf show ?thesis by blast
qed

lemma run_from_Cons:
  "run_from STI (st\<lparr>ahead := MI # rest\<rparr>)
     = (case step STI MI (st\<lparr>ahead := rest\<rparr>) of None \<Rightarrow> None | Some st' \<Rightarrow> run_from STI st')"
  by (simp add: run_from_def walk.simps [of STI "st\<lparr>ahead := MI # rest\<rparr>"] split: option.splits)

lemma pass_takes_step:
  assumes "pass_takes STI (c, MF') k MI st"
  obtains st' where "step STI MI st = Some st'" "run_from STI st' = Some (c, MF')"
  using assms run_from_Cons [where STI=STI and st=st and MI=MI and rest="ahead st"]
  by (auto simp: pass_takes_def split: option.splits)

lemma run_takes_pass:
  assumes "runOnMachineFunction STI MF = Some (c, MF')"
      and "Blocks MF = Bs1 @ (pre @ MI # post) # Bs2"
      and "\<not> isLEA MI"
      and "J ValLoc_default"
      and "\<forall>I\<in>set pre. \<forall>s s'. J (SZFlagLoc s) \<longrightarrow> step STI I s = Some s' \<longrightarrow> J (SZFlagLoc s')"
  shows "\<exists>st. pass_takes STI (c, MF') (length Bs1) MI st
           \<and> list_all2 only_LEA_erased (blocks_after st) Bs2
           \<and> only_LEA_erased (ahead st) post
           \<and> prefix (RegInfo MF) (VRegs st)
           \<and> J (SZFlagLoc st)
           \<and> (pre = [] \<longrightarrow> walked st = [] \<and> SZFlagLoc st = ValLoc_default)"
proof -
  from run_takes [OF assms(1,2,3), of J, OF assms(4,5)]
  obtain st st' where r: "length (blocks_before st) = length Bs1"
    "list_all2 only_LEA_erased (blocks_after st) Bs2"
    "only_LEA_erased (ahead st) post" "prefix (RegInfo MF) (VRegs st)" "J (SZFlagLoc st)"
    "pre = [] \<longrightarrow> walked st = [] \<and> SZFlagLoc st = ValLoc_default"
    "step STI MI st = Some st'" "run_from STI st' = Some (c, MF')"
    by blast
  from r(7,8) run_from_Cons [where STI=STI and st=st and MI=MI and rest="ahead st"]
  have "run_from STI (st\<lparr>ahead := MI # ahead st\<rparr>) = Some (c, MF')" by simp
  with r show ?thesis by (auto simp: pass_takes_def)
qed





section \<open>Elimination of the redundant self-OR\<close>



section \<open>Copy legalization\<close>



section \<open>Push/effective-address fusion\<close>



section \<open>The location tracker: what the setters replace\<close>

text \<open>
  Claim C4, as stated: the tracker is in exactly one of the states unset, register and
  memory, so that after \<open>setMem(B, O)\<close> it matches no register and after \<open>setReg(R)\<close> it
  matches no memory location. This fails: \<open>setReg\<close> writes \<open>Reg\<close> only and \<open>setMem\<close>
  writes \<open>Base\<close> and \<open>Off\<close> only. A tracker set to the accumulator and then to the memory
  cell at offset 0 from a virtual register still matches the accumulator, and a tracker
  set to that cell and then to the accumulator still matches the cell.
\<close>

theorem C4_counterexample:
  "matchesReg (setMem (setReg ValLoc_default Z80_A) (index2VirtReg 1) 0) Z80_A
   \<and> matchesMem (setReg (setMem ValLoc_default (index2VirtReg 1) 0) Z80_A) (index2VirtReg 1) 0"
  by (simp add: tracker_defs index2VirtReg_def)

text \<open>
  The turn of the loop on a store of the register the tracker matches: \<open>LD8pr\<close>, \<open>LD8pg\<close>
  (\<open>setPtr(MI, 0)\<close>) and \<open>LD8or\<close>, \<open>LD8og\<close> (\<open>setOff(MI, 0)\<close>).
\<close>

lemma step_store_ptr:
  assumes "switch_case (Opcode MI) = Case_LD8pr"
      and "getOperand MI 0 = Some (MO_Register P dp ip)"
      and "getOperand MI 1 = Some (MO_Register S ds js)"
      and "defs MI = []" and "matchesReg (SZFlagLoc st) S"
  shows "step STI MI st
           = Some (st\<lparr>SZFlagLoc := setMem (SZFlagLoc st) P 0, walked := walked st @ [MI]\<rparr>)"
  using assms
  by (simp add: step_def dispatch_def rule_LD8pr_def matchesReg_MI_def setPtr_def clobberDefs_def)

lemma step_store_off:
  assumes "switch_case (Opcode MI) = Case_LD8or"
      and "getBaseReg MI 0 = Some B"
      and "getOperand MI 1 = Some (MO_Immediate v)"
      and "getOperand MI 2 = Some (MO_Register S ds js)"
      and "defs MI = []" and "matchesReg (SZFlagLoc st) S"
  shows "step STI MI st
           = Some (st\<lparr>SZFlagLoc := setMem (SZFlagLoc st) B (ucast v), walked := walked st @ [MI]\<rparr>)"
  using assms
  by (simp add: step_def dispatch_def rule_LD8or_def matchesReg_MI_def setOff_def clobberDefs_def)

text \<open>
  Claim C4, amended: the tracker has a register fact and a memory fact, and each
  setter replaces its own fact unconditionally. After \<open>setReg(R)\<close> the registers the
  tracker matches are exactly the valid register \<open>R\<close>; after \<open>setMem(B, O)\<close> the memory
  locations it matches are exactly the one with the valid base \<open>B\<close> and the offset \<open>O\<close>;
  the default-constructed tracker matches nothing. The store rules (\<open>LD8pr\<close>, \<open>LD8pg\<close>,
  \<open>LD8or\<close>, \<open>LD8og\<close>), which call \<open>setPtr\<close> or \<open>setOff\<close> when the tracker matches the stored
  register, keep both facts: after the store the tracker matches the stored register
  and the location stored to. This is so for one turn of the loop in any state, and in
  a run of the pass on a function where an accumulator arithmetic is followed by a
  store of the accumulator through a pointer: the run passes through a state, just
  after the store, whose tracker matches both the accumulator and the location.
\<close>

theorem C4_setters_replace_own_fact:
  "matchesReg (setReg L R) R' = (isValid R' \<and> R = R')
   \<and> matchesMem (setMem L B O1) B' O2 = (isValid B' \<and> B = B' \<and> O1 = O2)
   \<and> \<not> matchesReg ValLoc_default R \<and> \<not> matchesMem ValLoc_default B O1
   \<and> (switch_case (Opcode MI) = Case_LD8pr
        \<and> getOperand MI 0 = Some (MO_Register P dp ip)
        \<and> getOperand MI 1 = Some (MO_Register S ds js)
        \<and> defs MI = [] \<and> isValid P \<and> matchesReg (SZFlagLoc st) S
      \<longrightarrow> (\<exists>st'. step STI MI st = Some st'
             \<and> matchesReg (SZFlagLoc st') S \<and> matchesMem (SZFlagLoc st') P 0))
   \<and> (switch_case (Opcode MI) = Case_LD8or
        \<and> getBaseReg MI 0 = Some P
        \<and> getOperand MI 1 = Some (MO_Immediate v)
        \<and> getOperand MI 2 = Some (MO_Register S ds js)
        \<and> defs MI = [] \<and> isValid P \<and> matchesReg (SZFlagLoc st) S
      \<longrightarrow> (\<exists>st'. step STI MI st = Some st'
             \<and> matchesReg (SZFlagLoc st') S \<and> matchesMem (SZFlagLoc st') P (ucast v)))
   \<and> (\<forall>c MF' Bs1 pre MI0 post Bs2.
        runOnMachineFunction STI MF = Some (c, MF')
        \<and> Blocks MF = Bs1 @ (pre @ MI0 # MI # post) # Bs2
        \<and> switch_case (Opcode MI0) = Case_ADD8ar \<and> defs MI0 = []
        \<and> switch_case (Opcode MI) = Case_LD8pr
        \<and> getOperand MI 0 = Some (MO_Register P dp ip)
        \<and> getOperand MI 1 = Some (MO_Register Z80_A ds js)
        \<and> defs MI = [] \<and> isValid P
      \<longrightarrow> (\<exists>st w. run_from STI st = Some (c, MF')
             \<and> length (blocks_before st) = length Bs1
             \<and> walked st = w @ [MI0, MI] \<and> only_LEA_erased (ahead st) post
             \<and> matchesReg (SZFlagLoc st) Z80_A \<and> matchesMem (SZFlagLoc st) P 0))"
    (is "?r \<and> ?m \<and> ?d1 \<and> ?d2 \<and> ?ptr \<and> ?off \<and> ?pass")
proof -
  have r: ?r and m: ?m and d1: ?d1 and d2: ?d2 by (auto simp: tracker_defs)
  have p: ?ptr
  proof
    assume a: "switch_case (Opcode MI) = Case_LD8pr
        \<and> getOperand MI 0 = Some (MO_Register P dp ip)
        \<and> getOperand MI 1 = Some (MO_Register S ds js)
        \<and> defs MI = [] \<and> isValid P \<and> matchesReg (SZFlagLoc st) S"
    then have "step STI MI st
           = Some (st\<lparr>SZFlagLoc := setMem (SZFlagLoc st) P 0, walked := walked st @ [MI]\<rparr>)"
      by (intro step_store_ptr) auto
    with a show "\<exists>st'. step STI MI st = Some st'
             \<and> matchesReg (SZFlagLoc st') S \<and> matchesMem (SZFlagLoc st') P 0"
      by (simp add: matchesReg_def matchesMem_def setMem_def)
  qed
  have off: ?off
  proof
    assume a: "switch_case (Opcode MI) = Case_LD8or
        \<and> getBaseReg MI 0 = Some P
        \<and> getOperand MI 1 = Some (MO_Immediate v)
        \<and> getOperand MI 2 = Some (MO_Register S ds js)
        \<and> defs MI = [] \<and> isValid P \<and> matchesReg (SZFlagLoc st) S"
    then have "step STI MI st
           = Some (st\<lparr>SZFlagLoc := setMem (SZFlagLoc st) P (ucast v), walked := walked st @ [MI]\<rparr>)"
      by (intro step_store_off) auto
    with a show "\<exists>st'. step STI MI st = Some st'
             \<and> matchesReg (SZFlagLoc st') S \<and> matchesMem (SZFlagLoc st') P (ucast v)"
      by (simp add: matchesReg_def matchesMem_def setMem_def)
  qed
  have pass: ?pass
  proof (intro allI impI)
    fix c MF' Bs1 pre MI0 post Bs2
    assume a: "runOnMachineFunction STI MF = Some (c, MF')
        \<and> Blocks MF = Bs1 @ (pre @ MI0 # MI # post) # Bs2
        \<and> switch_case (Opcode MI0) = Case_ADD8ar \<and> defs MI0 = []
        \<and> switch_case (Opcode MI) = Case_LD8pr
        \<and> getOperand MI 0 = Some (MO_Register P dp ip)
        \<and> getOperand MI 1 = Some (MO_Register Z80_A ds js)
        \<and> defs MI = [] \<and> isValid P"
    then have run: "runOnMachineFunction STI MF = Some (c, MF')"
      and dec: "Blocks MF = Bs1 @ (pre @ MI0 # (MI # post)) # Bs2"
      and nl0: "\<not> isLEA MI0" and nl: "\<not> isLEA MI"
      by (auto simp: isLEA_def switch_case_def)
    from run_takes_pass [OF run dec nl0, of "\<lambda>L. True"]
    obtain sa where t: "pass_takes STI (c, MF') (length Bs1) MI0 sa"
      and oa: "only_LEA_erased (ahead sa) (MI # post)"
      by auto
    from oa nl obtain q where q: "ahead sa = MI # q" and oq: "only_LEA_erased q post"
      using ole_mid [of "ahead sa" "[]" MI post] by (auto simp: ole_Nil)
    from t obtain sa' where s: "step STI MI0 sa = Some sa'" and r: "run_from STI sa' = Some (c, MF')"
      by (rule pass_takes_step)
    from a s have sa': "sa' = sa\<lparr>SZFlagLoc := setReg (SZFlagLoc sa) Z80_A, walked := walked sa @ [MI0]\<rparr>"
      by (simp add: step_def dispatch_def rule_ADD8ar_def clobberDefs_def)
    then have mr: "matchesReg (SZFlagLoc (sa'\<lparr>ahead := q\<rparr>)) Z80_A" by (simp add: tracker_defs)
    let ?sb = "sa'\<lparr>ahead := q,
                    SZFlagLoc := setMem (SZFlagLoc sa') P 0,
                    walked := walked sa' @ [MI]\<rparr>"
    from a mr have st: "step STI MI (sa'\<lparr>ahead := q\<rparr>) = Some ?sb"
      using step_store_ptr [of MI P dp ip Z80_A ds js "sa'\<lparr>ahead := q\<rparr>" STI] by simp
    from sa' q have "sa' = sa'\<lparr>ahead := MI # q\<rparr>" by simp
    with r have "run_from STI (sa'\<lparr>ahead := MI # q\<rparr>) = Some (c, MF')" by simp
    with st have rb: "run_from STI ?sb = Some (c, MF')"
      by (simp add: run_from_Cons)
    from t sa' have lb: "length (blocks_before ?sb) = length Bs1"
      and wb: "walked ?sb = walked sa @ [MI0, MI]" and ab: "ahead ?sb = q"
      by (simp_all add: pass_takes_def)
    from a sa' have mm: "matchesReg (SZFlagLoc ?sb) Z80_A \<and> matchesMem (SZFlagLoc ?sb) P 0"
      by (simp add: tracker_defs)
    from rb lb wb ab oq mm
    show "\<exists>st w. run_from STI st = Some (c, MF')
             \<and> length (blocks_before st) = length Bs1
             \<and> walked st = w @ [MI0, MI] \<and> only_LEA_erased (ahead st) post
             \<and> matchesReg (SZFlagLoc st) Z80_A \<and> matchesMem (SZFlagLoc st) P 0"
      by (intro exI [of _ ?sb] exI [of _ "walked sa"]) simp
  qed
  from r m d1 d2 p off pass show ?thesis by (intro conjI)
qed

theorem C4_setters_replace_own_fact_witness:
  "runOnMachineFunction sample_STI sample_MF_store
     = Some (False, \<lparr>Blocks = [[sample_ADD8ar, sample_LD8pr]],
                     RegInfo = [OtherRegClass 0, OtherRegClass 0]\<rparr>)
   \<and> (\<exists>st w. run_from sample_STI st
                = Some (False, \<lparr>Blocks = [[sample_ADD8ar, sample_LD8pr]],
                                RegInfo = [OtherRegClass 0, OtherRegClass 0]\<rparr>)
          \<and> walked st = w @ [sample_ADD8ar, sample_LD8pr]
          \<and> matchesReg (SZFlagLoc st) Z80_A \<and> matchesMem (SZFlagLoc st) (index2VirtReg 1) 0)
   \<and> (\<exists>st'. step sample_STI sample_LD8pr
              ((sample_state [] [])\<lparr>SZFlagLoc := setReg ValLoc_default Z80_A\<rparr>) = Some st'
          \<and> matchesReg (SZFlagLoc st') Z80_A \<and> matchesMem (SZFlagLoc st') (index2VirtReg 1) 0)"
proof -
  let ?out = "\<lparr>Blocks = [[sample_ADD8ar, sample_LD8pr]],
               RegInfo = [OtherRegClass 0, OtherRegClass 0]\<rparr>"
  let ?st = "(sample_state [] [])\<lparr>SZFlagLoc := setReg ValLoc_default Z80_A\<rparr>"
  have run: "runOnMachineFunction sample_STI sample_MF_store = Some (False, ?out)"
    by (simp add: run_defs sample_defs)
  have shape: "switch_case (Opcode sample_LD8pr) = Case_LD8pr
        \<and> getOperand sample_LD8pr 0 = Some (MO_Register (index2VirtReg 1) False False)
        \<and> getOperand sample_LD8pr 1 = Some (MO_Register Z80_A False False)
        \<and> defs sample_LD8pr = [] \<and> isValid (index2VirtReg 1)"
    by (simp add: sample_LD8pr_def switch_case_def getOperand_def defs_def isValid_def
          index2VirtReg_def NoRegister_def)
  have m: "matchesReg (SZFlagLoc ?st) Z80_A" by (simp add: tracker_defs)
  have dec: "Blocks sample_MF_store = [] @ ([] @ sample_ADD8ar # sample_LD8pr # [sample_OR8ar]) # []"
    by (simp add: sample_MF_store_def)
  have add: "switch_case (Opcode sample_ADD8ar) = Case_ADD8ar \<and> defs sample_ADD8ar = []"
    by (simp add: sample_ADD8ar_def switch_case_def defs_def)
  note T = C4_setters_replace_own_fact [where MI = sample_LD8pr and P = "index2VirtReg 1" and dp = False and ip = False
                     and ds = False and js = False and STI = sample_STI and MF = sample_MF_store]
  from T [where S = Z80_A and st = ?st, THEN conjunct2, THEN conjunct2, THEN conjunct2,
          THEN conjunct2, THEN conjunct1] shape m
  have 1: "\<exists>st'. step sample_STI sample_LD8pr ?st = Some st'
          \<and> matchesReg (SZFlagLoc st') Z80_A \<and> matchesMem (SZFlagLoc st') (index2VirtReg 1) 0"
    by blast
  from T [THEN conjunct2, THEN conjunct2, THEN conjunct2, THEN conjunct2, THEN conjunct2,
          THEN conjunct2, THEN spec, THEN spec, THEN spec, THEN spec, THEN spec, THEN spec,
          THEN spec, THEN mp, of False ?out "[]" "[]" sample_ADD8ar "[sample_OR8ar]" "[]"]
       run dec add shape
  have 2: "\<exists>st w. run_from sample_STI st = Some (False, ?out)
          \<and> walked st = w @ [sample_ADD8ar, sample_LD8pr]
          \<and> matchesReg (SZFlagLoc st) Z80_A \<and> matchesMem (SZFlagLoc st) (index2VirtReg 1) 0"
    by blast
  from run 1 2 show ?thesis by (intro conjI)
qed

section \<open>Definitions that clobber the tracked location\<close>

text \<open>
  Claim C3 says that the tracker is unset after every instruction that defines a
  register overlapping the tracked register, whichever rule fired, so that a self-OR
  of the accumulator after such an instruction is not eliminated. On the block
  \<open>ADD8ar; LD8am; OR8ar A\<close>, under an oracle for which a register overlaps itself:
  \<open>LD8am\<close> defines the accumulator and does not write the flags; the definition is an
  implicit one, and \<open>clobberDefs\<close> walks \<open>MI.defs()\<close>, the explicit definitions. The
  tracker, which \<open>ADD8ar\<close> has set to the accumulator, is still set to it after \<open>LD8am\<close>,
  and the pass deletes the self-OR, although the accumulator has been loaded anew
  since the flags were computed.
\<close>

theorem C3_implicit_definition_missed:
  "definesReg Z80_A sample_LD8am
   \<and> \<not> modifiesRegister (regsOverlap sample_STI) sample_LD8am Z80_F
   \<and> regsOverlap sample_STI Z80_A Z80_A
   \<and> map_option SZFlagLoc (walk sample_STI (sample_state [] [sample_ADD8ar]))
       = Some (setReg ValLoc_default Z80_A)
   \<and> map_option SZFlagLoc (walk sample_STI (sample_state [] [sample_ADD8ar, sample_LD8am]))
       = Some (setReg ValLoc_default Z80_A)
   \<and> runOnMachineFunction sample_STI sample_MF_reload
       = Some (False, \<lparr>Blocks = [[sample_ADD8ar, sample_LD8am]],
                       RegInfo = [OtherRegClass 0, OtherRegClass 0]\<rparr>)"
  by (simp add: run_defs sample_state_def sample_STI_def sample_ADD8ar_def sample_LD8am_def
        sample_OR8ar_def sample_MF_reload_def definesReg_def)

end
